theory Spec2Isabelle
  imports Main
begin

section \<open>Solidity values, errors and checked arithmetic\<close>

text \<open>
  The two contracts \<^verbatim>\<open>QuadraticVoting.sol\<close> and \<^verbatim>\<open>MilestoneFunding.sol\<close> are compiled with
  \<^verbatim>\<open>pragma solidity ^0.8.19\<close>: every \<^verbatim>\<open>uint256\<close> addition, subtraction and multiplication
  is checked and reverts with \<^verbatim>\<open>Panic(0x11)\<close> when the result leaves \<open>0 .. 2^256 - 1\<close>;
  a division by zero reverts with \<^verbatim>\<open>Panic(0x12)\<close>. Values of type \<^verbatim>\<open>uint256\<close>,
  \<^verbatim>\<open>address\<close> and \<^verbatim>\<open>bytes32\<close> are natural numbers here, and each arithmetic operation of
  the source is guarded by the overflow test the compiler inserts.

  A transaction that reverts leaves the storage as it was: an operation returns
  \<open>Inl error\<close> and no state, or \<open>Inr\<close> of the new state. \<^verbatim>\<open>msg.sender\<close> and
  \<^verbatim>\<open>block.timestamp\<close> are arguments (\<open>sender\<close>, \<open>now\<close>).
\<close>

type_synonym address = nat
type_synonym bytes32 = nat

definition MAX_UINT256 :: nat where
  "MAX_UINT256 = 2 ^ 256 - 1"

datatype role = DEFAULT_ADMIN_ROLE | ADMIN_ROLE | VOTER_ROLE | REVIEWER_ROLE | ARBITRATOR_ROLE

datatype error =
    Require string
  | Panic_0x11
  | Panic_0x12
  | MissingRole role
  | TransferFailed
  | InvalidVotingPhase
  | InvalidVoteCount
  | AlreadyVoted
  | InvalidCommitment
  | InsufficientCredits
  | NotQualifiedVoter
  | InsufficientStake
  | UnauthorizedReviewer
  | InvalidMilestoneStatus
  | DeadlineNotMet
  | InsufficientFunds
  | AlreadyReviewed

section \<open>QuadraticVoting\<close>

subsection \<open>Integer square root\<close>

text \<open>
  \<^verbatim>\<open>_sqrt\<close>: the loop \<^verbatim>\<open>while (z < y) { y = z; z = (x / z + z) / 2; }\<close> is the recursion
  \<open>sqrt_loop x z y\<close>; the measure is \<open>y\<close>, which the loop replaces by the smaller \<open>z\<close>.
\<close>

function sqrt_loop :: "nat \<Rightarrow> nat \<Rightarrow> nat \<Rightarrow> error + nat" where
  "sqrt_loop x z y =
     (if z < y then
        (if z = 0 then Inl Panic_0x12
         else if x div z + z > MAX_UINT256 then Inl Panic_0x11
         else sqrt_loop x ((x div z + z) div 2) z)
      else Inr y)"
  by pat_completeness auto
termination
  by (relation "measure (\<lambda>(x, z, y). y)") auto

declare sqrt_loop.simps [simp del]

definition sqrt_sol :: "nat \<Rightarrow> error + nat" where
  "sqrt_sol x =
     (if x = 0 then Inr 0
      else if x + 1 > MAX_UINT256 then Inl Panic_0x11
      else sqrt_loop x ((x + 1) div 2) x)"

text \<open>One Newton step, as the loop body computes it (used in the proofs only).\<close>

definition newton :: "nat \<Rightarrow> nat \<Rightarrow> nat" where
  "newton x y = (x div y + y) div 2"

subsection \<open>Storage\<close>

record VotingRound =
  startTime :: nat
  endTime :: nat
  commitEndTime :: nat
  totalCredits :: nat
  totalProposals :: nat
  finalized :: bool
  merkleRoot :: bytes32

record Vote =
  commitment :: bytes32
  votesRevealed :: nat
  revealed :: bool
  counted :: bool

record ProposalResult =
  totalVotes :: nat
  quadraticScore :: nat
  uniqueVoters :: nat
  qualifiedP :: bool  \<comment> \<open>the field \<^verbatim>\<open>qualified\<close>, a reserved word here\<close>

definition CREDITS_PER_ROUND :: nat where
  "CREDITS_PER_ROUND = 100"

definition MAX_VOTES_PER_PROPOSAL :: nat where
  "MAX_VOTES_PER_PROPOSAL = 10"

text \<open>
  \<open>paused\<close> is the flag of the inherited \<^verbatim>\<open>PausableUpgradeable\<close>, \<open>hasRole\<close> the role
  table of the inherited \<^verbatim>\<open>AccessControlUpgradeable\<close>. Events are not stored: the
  contract cannot read them and no property below is about them.
\<close>

record voting_state =
  currentRoundId :: nat
  votingRounds :: "nat \<Rightarrow> VotingRound"
  votes :: "nat \<Rightarrow> address \<Rightarrow> Vote"
  results :: "nat \<Rightarrow> nat \<Rightarrow> ProposalResult"
  voterReputationScore :: "address \<Rightarrow> nat"
  paused :: bool
  hasRole :: "role \<Rightarrow> address \<Rightarrow> bool"

definition zero_round :: VotingRound where
  "zero_round = \<lparr>startTime = 0, endTime = 0, commitEndTime = 0, totalCredits = 0,
     totalProposals = 0, finalized = False, merkleRoot = 0\<rparr>"

definition zero_vote :: Vote where
  "zero_vote = \<lparr>commitment = 0, votesRevealed = 0, revealed = False, counted = False\<rparr>"

definition zero_result :: ProposalResult where
  "zero_result = \<lparr>totalVotes = 0, quadraticScore = 0, uniqueVoters = 0, qualifiedP = False\<rparr>"

definition zero_voting :: voting_state where
  "zero_voting = \<lparr>currentRoundId = 0, votingRounds = (\<lambda>_. zero_round),
     votes = (\<lambda>_ _. zero_vote), results = (\<lambda>_ _. zero_result),
     voterReputationScore = (\<lambda>_. 0), paused = False, hasRole = (\<lambda>_ _. False)\<rparr>"

text \<open>
  The hash function and the library \<^verbatim>\<open>MerkleProof.verify\<close> are imported, not part of the
  repository; they are parameters: \<open>leafHash a\<close> is \<^verbatim>\<open>keccak256(abi.encodePacked(a))\<close>,
  \<open>voteHash p v n\<close> is \<^verbatim>\<open>keccak256(abi.encodePacked(p, v, n))\<close>, and
  \<open>merkleVerify proof root leaf\<close> is \<^verbatim>\<open>MerkleProof.verify(proof, root, leaf)\<close>.
\<close>

record primitives =
  leafHash :: "address \<Rightarrow> bytes32"
  voteHash :: "nat \<Rightarrow> nat \<Rightarrow> nat \<Rightarrow> bytes32"
  merkleVerify :: "bytes32 list \<Rightarrow> bytes32 \<Rightarrow> bytes32 \<Rightarrow> bool"

subsection \<open>Operations\<close>

definition initializeVoting :: "address \<Rightarrow> voting_state" where
  "initializeVoting admin =
     zero_voting\<lparr>hasRole := (\<lambda>r a. (r = DEFAULT_ADMIN_ROLE \<or> r = ADMIN_ROLE) \<and> a = admin)\<rparr>"

definition startVotingRound ::
  "nat \<Rightarrow> nat \<Rightarrow> bytes32 \<Rightarrow> address \<Rightarrow> nat \<Rightarrow> voting_state \<Rightarrow> error + voting_state" where
  "startVotingRound duration commitDuration root sender now s =
     (if \<not> hasRole s ADMIN_ROLE sender then Inl (MissingRole ADMIN_ROLE)
      else if \<not> (currentRoundId s = 0 \<or> finalized (votingRounds s (currentRoundId s)))
        then Inl (Require ''Previous round not finalized'')
      else if currentRoundId s + 1 > MAX_UINT256 then Inl Panic_0x11
      else if now + duration > MAX_UINT256 then Inl Panic_0x11
      else if now + commitDuration > MAX_UINT256 then Inl Panic_0x11
      else Inr (s\<lparr>currentRoundId := currentRoundId s + 1,
                  votingRounds := (votingRounds s)(currentRoundId s + 1 :=
                    \<lparr>startTime = now, endTime = now + duration,
                     commitEndTime = now + commitDuration, totalCredits = 0,
                     totalProposals = 0, finalized = False, merkleRoot = root\<rparr>)\<rparr>))"

definition verifyVoter :: "primitives \<Rightarrow> address \<Rightarrow> bytes32 list \<Rightarrow> bytes32 \<Rightarrow> bool" where
  "verifyVoter K voter proof root = merkleVerify K proof root (leafHash K voter)"

definition commitVote ::
  "primitives \<Rightarrow> bytes32 \<Rightarrow> bytes32 list \<Rightarrow> address \<Rightarrow> nat \<Rightarrow> voting_state
     \<Rightarrow> error + voting_state" where
  "commitVote K c proof sender now s =
     (if paused s then Inl (Require ''Pausable: paused'')
      else let rid = currentRoundId s; round = votingRounds s rid in
        if now > commitEndTime round \<or> now < startTime round then Inl InvalidVotingPhase
        else if \<not> verifyVoter K sender proof (merkleRoot round) then Inl NotQualifiedVoter
        else if commitment (votes s rid sender) \<noteq> 0 then Inl AlreadyVoted
        else Inr (s\<lparr>votes := (votes s)(rid := (votes s rid)(sender :=
                      (votes s rid sender)\<lparr>commitment := c\<rparr>))\<rparr>))"

definition revealVote ::
  "primitives \<Rightarrow> nat \<Rightarrow> nat \<Rightarrow> nat \<Rightarrow> address \<Rightarrow> nat \<Rightarrow> voting_state
     \<Rightarrow> error + voting_state" where
  "revealVote K proposalId voteCount nonce sender now s =
     (if paused s then Inl (Require ''Pausable: paused'')
      else let rid = currentRoundId s; round = votingRounds s rid; vote = votes s rid sender in
        if now < commitEndTime round \<or> now > endTime round then Inl InvalidVotingPhase
        else if revealed vote then Inl AlreadyVoted
        else if voteHash K proposalId voteCount nonce \<noteq> commitment vote then Inl InvalidCommitment
        else if voteCount = 0 \<or> voteCount > MAX_VOTES_PER_PROPOSAL then Inl InvalidVoteCount
        else if voteCount * voteCount > MAX_UINT256 then Inl Panic_0x11
        else let cost = voteCount * voteCount; result = results s rid proposalId in
          if cost > CREDITS_PER_ROUND then Inl InsufficientCredits
          else if totalVotes result + voteCount > MAX_UINT256 then Inl Panic_0x11
          else if voteCount * 10 ^ 18 > MAX_UINT256 then Inl Panic_0x11
          else (case sqrt_sol (voteCount * 10 ^ 18) of
                  Inl e \<Rightarrow> Inl e
                | Inr q \<Rightarrow>
                    if quadraticScore result + q > MAX_UINT256 then Inl Panic_0x11
                    else if uniqueVoters result + 1 > MAX_UINT256 then Inl Panic_0x11
                    else if totalCredits round + cost > MAX_UINT256 then Inl Panic_0x11
                    else if voterReputationScore s sender + 1 > MAX_UINT256 then Inl Panic_0x11
                    else Inr (s\<lparr>
                      votes := (votes s)(rid := (votes s rid)(sender :=
                        vote\<lparr>revealed := True, votesRevealed := voteCount\<rparr>)),
                      results := (results s)(rid := (results s rid)(proposalId :=
                        result\<lparr>totalVotes := totalVotes result + voteCount,
                               quadraticScore := quadraticScore result + q,
                               uniqueVoters := uniqueVoters result + 1\<rparr>)),
                      votingRounds := (votingRounds s)(rid :=
                        round\<lparr>totalCredits := totalCredits round + cost\<rparr>),
                      voterReputationScore := (voterReputationScore s)(sender :=
                        voterReputationScore s sender + 1)\<rparr>)))"

definition finalizeRound :: "address \<Rightarrow> nat \<Rightarrow> voting_state \<Rightarrow> error + voting_state" where
  "finalizeRound sender now s =
     (if \<not> hasRole s ADMIN_ROLE sender then Inl (MissingRole ADMIN_ROLE)
      else let rid = currentRoundId s; round = votingRounds s rid in
        if \<not> now > endTime round then Inl (Require ''Voting still active'')
        else if finalized round then Inl (Require ''Already finalized'')
        else Inr (s\<lparr>votingRounds := (votingRounds s)(rid := round\<lparr>finalized := True\<rparr>)\<rparr>))"

text \<open>
  \<^verbatim>\<open>pause\<close> and \<^verbatim>\<open>unpause\<close> call the library's \<^verbatim>\<open>_pause\<close> (guarded by
  \<^verbatim>\<open>whenNotPaused\<close>) and \<^verbatim>\<open>_unpause\<close> (guarded by \<^verbatim>\<open>whenPaused\<close>).
\<close>

definition pause :: "address \<Rightarrow> voting_state \<Rightarrow> error + voting_state" where
  "pause sender s =
     (if \<not> hasRole s ADMIN_ROLE sender then Inl (MissingRole ADMIN_ROLE)
      else if paused s then Inl (Require ''Pausable: paused'')
      else Inr (s\<lparr>paused := True\<rparr>))"

definition unpause :: "address \<Rightarrow> voting_state \<Rightarrow> error + voting_state" where
  "unpause sender s =
     (if \<not> hasRole s ADMIN_ROLE sender then Inl (MissingRole ADMIN_ROLE)
      else if \<not> paused s then Inl (Require ''Pausable: not paused'')
      else Inr (s\<lparr>paused := False\<rparr>))"

text \<open>The read-only query \<^verbatim>\<open>getProposalScore\<close>.\<close>

definition getProposalScore :: "nat \<Rightarrow> nat \<Rightarrow> voting_state \<Rightarrow> ProposalResult" where
  "getProposalScore roundId proposalId s = results s roundId proposalId"

subsection \<open>Reachable states\<close>

text \<open>
  A state is reachable when a sequence of successful calls leads to it from the state
  \<^verbatim>\<open>initialize\<close> leaves. The inherited \<^verbatim>\<open>grantRole\<close>, \<^verbatim>\<open>revokeRole\<close> and
  \<^verbatim>\<open>renounceRole\<close> only change the role table; the rule \<open>vr_roles\<close> lets it change
  in any way.
\<close>

datatype vcall =
    StartVotingRound nat nat bytes32
  | CommitVote bytes32 "bytes32 list"
  | RevealVote nat nat nat
  | FinalizeRound
  | PauseCall
  | UnpauseCall

fun vexec :: "primitives \<Rightarrow> vcall \<Rightarrow> address \<Rightarrow> nat \<Rightarrow> voting_state \<Rightarrow> error + voting_state" where
  "vexec K (StartVotingRound d cd root) sender now s = startVotingRound d cd root sender now s"
| "vexec K (CommitVote c proof) sender now s = commitVote K c proof sender now s"
| "vexec K (RevealVote p v n) sender now s = revealVote K p v n sender now s"
| "vexec K FinalizeRound sender now s = finalizeRound sender now s"
| "vexec K PauseCall sender now s = pause sender s"
| "vexec K UnpauseCall sender now s = unpause sender s"

inductive vreach :: "primitives \<Rightarrow> voting_state \<Rightarrow> bool" for K :: primitives where
  vr_init: "vreach K (initializeVoting admin)"
| vr_call: "vreach K s \<Longrightarrow> vexec K c sender now s = Inr s' \<Longrightarrow> vreach K s'"
| vr_roles: "vreach K s \<Longrightarrow> vreach K (s\<lparr>hasRole := r\<rparr>)"

section \<open>MilestoneFunding\<close>

subsection \<open>Storage\<close>

datatype MilestoneStatus = Pending | InReview | Approved | Rejected | Disputed | Released

record Milestone =
  description :: string
  fundingAmount :: nat
  deadline :: nat
  deliverableHash :: string
  status :: MilestoneStatus
  assignedReviewers :: "address list"
  approvalCount :: nat
  submissionTime :: nat
  autoReleaseEnabled :: bool
  autoReleaseTime :: nat

text \<open>
  The fields \<^verbatim>\<open>description\<close> and \<^verbatim>\<open>active\<close> exist in two structs; the ones of
  \<^verbatim>\<open>Project\<close> are \<open>projectDescription\<close> and \<open>projectActive\<close> here.
\<close>

record Project =
  creator :: address
  title :: string
  projectDescription :: string
  fundingToken :: address
  totalFunding :: nat
  releasedFunding :: nat
  milestoneCount :: nat
  projectActive :: bool
  createdAt :: nat
  milestones :: "nat \<Rightarrow> Milestone"

record ReviewerStake =
  stakedAmount :: nat
  successfulReviews :: nat
  totalReviews :: nat
  active :: bool

definition REVIEWER_STAKE_REQUIRED :: nat where
  "REVIEWER_STAKE_REQUIRED = 1000 * 10 ^ 18"

definition AUTO_RELEASE_DELAY :: nat where
  "AUTO_RELEASE_DELAY = 7 * 86400"

definition MIN_REVIEWERS :: nat where
  "MIN_REVIEWERS = 2"

definition APPROVAL_THRESHOLD :: nat where
  "APPROVAL_THRESHOLD = 66"

text \<open>
  The token contracts are external. A call of \<^verbatim>\<open>safeTransfer\<close> or
  \<^verbatim>\<open>safeTransferFrom\<close> is recorded in the list \<open>transfers\<close>; whether the token
  accepts it is the argument \<open>tok\<close> of the operation, and a refused transfer reverts.
  The token is taken not to call back into the contract, so the guard
  \<^verbatim>\<open>nonReentrant\<close> never fires and is left out. Emitted events are recorded in
  \<open>emitted\<close>. \<open>roleMember\<close> is the role table of the inherited
  \<^verbatim>\<open>AccessControlUpgradeable\<close>.
\<close>

datatype transfer =
    TransferOut address address nat  \<comment> \<open>token, recipient, amount: \<^verbatim>\<open>safeTransfer\<close>\<close>
  | TransferIn address address nat   \<comment> \<open>token, payer, amount: \<^verbatim>\<open>safeTransferFrom\<close> to the contract\<close>

datatype event =
    ProjectCreated nat address nat
  | MilestoneSubmitted nat nat string
  | MilestoneReviewed nat nat address bool
  | MilestoneReleased nat nat nat
  | ReviewerStaked address nat

record funding_state =
  nextProjectId :: nat
  projects :: "nat \<Rightarrow> Project"
  reviewerStakes :: "address \<Rightarrow> ReviewerStake"
  reviewerVotes :: "nat \<Rightarrow> nat \<Rightarrow> address \<Rightarrow> bool"
  stakeToken :: address
  treasury :: address
  platformFeeRate :: nat
  roleMember :: "role \<Rightarrow> address \<Rightarrow> bool"
  transfers :: "transfer list"
  emitted :: "event list"

definition zero_milestone :: Milestone where
  "zero_milestone = \<lparr>description = [], fundingAmount = 0, deadline = 0, deliverableHash = [],
     status = Pending, assignedReviewers = [], approvalCount = 0, submissionTime = 0,
     autoReleaseEnabled = False, autoReleaseTime = 0\<rparr>"

definition zero_project :: Project where
  "zero_project = \<lparr>creator = 0, title = [], projectDescription = [], fundingToken = 0,
     totalFunding = 0, releasedFunding = 0, milestoneCount = 0, projectActive = False,
     createdAt = 0, milestones = (\<lambda>_. zero_milestone)\<rparr>"

definition zero_stake :: ReviewerStake where
  "zero_stake = \<lparr>stakedAmount = 0, successfulReviews = 0, totalReviews = 0, active = False\<rparr>"

text \<open>
  \<open>milestone_at s p i\<close> reads \<^verbatim>\<open>projects[p].milestones[i]\<close>, and \<open>set_milestone\<close>
  writes it: the storage reference \<^verbatim>\<open>Milestone storage milestone\<close> of the source.
\<close>

definition milestone_at :: "funding_state \<Rightarrow> nat \<Rightarrow> nat \<Rightarrow> Milestone" where
  "milestone_at s p i = milestones (projects s p) i"

definition set_milestone :: "nat \<Rightarrow> nat \<Rightarrow> Milestone \<Rightarrow> funding_state \<Rightarrow> funding_state" where
  "set_milestone p i m s =
     s\<lparr>projects := (projects s)(p := (projects s p)\<lparr>milestones := (milestones (projects s p))(i := m)\<rparr>)\<rparr>"

subsection \<open>Operations\<close>

text \<open>
  \<^verbatim>\<open>initialize\<close>, run on fresh storage; \<^verbatim>\<open>platformFeeRate\<close> has the value of its
  declaration, \<open>200\<close>.
\<close>

definition initialize :: "address \<Rightarrow> address \<Rightarrow> address \<Rightarrow> funding_state" where
  "initialize admin stakeTok treas =
     \<lparr>nextProjectId = 1, projects = (\<lambda>_. zero_project), reviewerStakes = (\<lambda>_. zero_stake),
      reviewerVotes = (\<lambda>_ _ _. False), stakeToken = stakeTok, treasury = treas,
      platformFeeRate = 200,
      roleMember = (\<lambda>r a. r = DEFAULT_ADMIN_ROLE \<and> a = admin),
      transfers = [], emitted = []\<rparr>"

text \<open>
  The loop of \<^verbatim>\<open>createProject\<close> over \<open>i = 0 ..< milestoneAmounts.length\<close>: the three
  arrays have equal length when it runs, so it recurses over their zip. It returns the
  milestone table and \<^verbatim>\<open>totalAmount\<close>.
\<close>

fun createMilestones ::
  "nat \<Rightarrow> nat \<Rightarrow> (nat \<times> string \<times> nat) list \<Rightarrow> (nat \<Rightarrow> Milestone) \<Rightarrow> nat
     \<Rightarrow> error + ((nat \<Rightarrow> Milestone) \<times> nat)" where
  "createMilestones now i [] ms totalAmount = Inr (ms, totalAmount)"
| "createMilestones now i ((amount, descr, dl) # rest) ms totalAmount =
     (if \<not> dl > now then Inl (Require ''Invalid deadline'')
      else if dl + AUTO_RELEASE_DELAY > MAX_UINT256 then Inl Panic_0x11
      else if totalAmount + amount > MAX_UINT256 then Inl Panic_0x11
      else createMilestones now (i + 1) rest
             (ms(i := (ms i)\<lparr>description := descr, fundingAmount := amount, deadline := dl,
                              status := Pending, autoReleaseEnabled := True,
                              autoReleaseTime := dl + AUTO_RELEASE_DELAY\<rparr>))
             (totalAmount + amount))"

definition createProject ::
  "string \<Rightarrow> string \<Rightarrow> address \<Rightarrow> nat list \<Rightarrow> string list \<Rightarrow> nat list \<Rightarrow> address \<Rightarrow> nat
     \<Rightarrow> funding_state \<Rightarrow> error + (funding_state \<times> nat)" where
  "createProject ttl descr token milestoneAmounts milestoneDescriptions milestoneDeadlines
       sender now s =
     (if \<not> length milestoneAmounts \<ge> 2 then Inl (Require ''Minimum 2 milestones required'')
      else if \<not> length milestoneAmounts \<le> 8 then Inl (Require ''Maximum 8 milestones allowed'')
      else if \<not> (length milestoneAmounts = length milestoneDescriptions \<and>
                  length milestoneDescriptions = length milestoneDeadlines)
        then Inl (Require ''Array length mismatch'')
      else if nextProjectId s + 1 > MAX_UINT256 then Inl Panic_0x11
      else let projectId = nextProjectId s; project = projects s projectId in
        (case createMilestones now 0
                (zip milestoneAmounts (zip milestoneDescriptions milestoneDeadlines))
                (milestones project) 0 of
           Inl e \<Rightarrow> Inl e
         | Inr (ms, totalAmount) \<Rightarrow>
             Inr (s\<lparr>nextProjectId := nextProjectId s + 1,
                    projects := (projects s)(projectId :=
                      project\<lparr>creator := sender, title := ttl, projectDescription := descr,
                              fundingToken := token,
                              milestoneCount := length milestoneAmounts,
                              projectActive := True, createdAt := now,
                              milestones := ms, totalFunding := totalAmount\<rparr>),
                    emitted := emitted s @ [ProjectCreated projectId sender totalAmount]\<rparr>,
                  projectId)))"

definition fundProject ::
  "(transfer \<Rightarrow> bool) \<Rightarrow> nat \<Rightarrow> nat \<Rightarrow> address \<Rightarrow> funding_state \<Rightarrow> error + funding_state" where
  "fundProject tok projectId amount sender s =
     (let project = projects s projectId in
      if \<not> projectActive project then Inl (Require ''Project not active'')
      else if \<not> tok (TransferIn (fundingToken project) sender amount) then Inl TransferFailed
      else Inr (s\<lparr>transfers := transfers s @ [TransferIn (fundingToken project) sender amount]\<rparr>))"

definition assignReviewers :: "nat \<Rightarrow> nat \<Rightarrow> funding_state \<Rightarrow> funding_state" where
  "assignReviewers projectId milestoneId s =
     set_milestone projectId milestoneId
       ((milestone_at s projectId milestoneId)\<lparr>assignedReviewers := replicate MIN_REVIEWERS 0\<rparr>) s"

definition submitMilestone ::
  "nat \<Rightarrow> nat \<Rightarrow> string \<Rightarrow> address \<Rightarrow> nat \<Rightarrow> funding_state \<Rightarrow> error + funding_state" where
  "submitMilestone projectId milestoneId dhash sender now s =
     (if \<not> sender = creator (projects s projectId) then Inl (Require ''Only creator can submit'')
      else let milestone = milestone_at s projectId milestoneId in
        if \<not> status milestone = Pending then Inl (Require ''Invalid status'')
        else let s1 = set_milestone projectId milestoneId
                        (milestone\<lparr>deliverableHash := dhash, status := InReview,
                                   submissionTime := now\<rparr>) s;
                 s2 = assignReviewers projectId milestoneId s1
             in Inr (s2\<lparr>emitted := emitted s2 @ [MilestoneSubmitted projectId milestoneId dhash]\<rparr>))"

text \<open>
  The local variable \<^verbatim>\<open>requiredApprovals\<close> of \<^verbatim>\<open>_checkMilestoneApproval\<close>,
  \<^verbatim>\<open>(milestone.assignedReviewers.length * APPROVAL_THRESHOLD) / 100\<close>, as a function of the
  panel length: a checked multiplication, then the integer division.
\<close>

definition requiredApprovals :: "nat \<Rightarrow> error + nat" where
  "requiredApprovals panelSize =
     (if panelSize * APPROVAL_THRESHOLD > MAX_UINT256 then Inl Panic_0x11
      else Inr ((panelSize * APPROVAL_THRESHOLD) div 100))"

definition checkMilestoneApproval :: "nat \<Rightarrow> nat \<Rightarrow> funding_state \<Rightarrow> error + funding_state" where
  "checkMilestoneApproval projectId milestoneId s =
     (let milestone = milestone_at s projectId milestoneId in
      case requiredApprovals (length (assignedReviewers milestone)) of
        Inl e \<Rightarrow> Inl e
      | Inr required \<Rightarrow>
          if approvalCount milestone \<ge> required
          then Inr (set_milestone projectId milestoneId (milestone\<lparr>status := Approved\<rparr>) s)
          else Inr s)"


text \<open>
  The search loop of \<^verbatim>\<open>reviewMilestone\<close>, which leaves at the first entry equal to the
  caller.
\<close>

fun isAssigned :: "address list \<Rightarrow> address \<Rightarrow> bool" where
  "isAssigned [] a = False"
| "isAssigned (x # xs) a = (if x = a then True else isAssigned xs a)"

definition reviewMilestone ::
  "nat \<Rightarrow> nat \<Rightarrow> bool \<Rightarrow> string \<Rightarrow> address \<Rightarrow> funding_state \<Rightarrow> error + funding_state" where
  "reviewMilestone projectId milestoneId approved comments sender s =
     (if \<not> roleMember s REVIEWER_ROLE sender then Inl (MissingRole REVIEWER_ROLE)
      else if \<not> active (reviewerStakes s sender) then Inl (Require ''Reviewer not active'')
      else let milestone = milestone_at s projectId milestoneId in
        if \<not> status milestone = InReview then Inl (Require ''Not in review'')
        else if reviewerVotes s projectId milestoneId sender then Inl (Require ''Already reviewed'')
        else if \<not> isAssigned (assignedReviewers milestone) sender
          then Inl (Require ''Not assigned reviewer'')
        else if approved \<and> approvalCount milestone + 1 > MAX_UINT256 then Inl Panic_0x11
        else if totalReviews (reviewerStakes s sender) + 1 > MAX_UINT256 then Inl Panic_0x11
        else let s1 = s\<lparr>reviewerVotes := (reviewerVotes s)(projectId :=
                           (reviewerVotes s projectId)(milestoneId :=
                             (reviewerVotes s projectId milestoneId)(sender := True)))\<rparr>;
                 s2 = (if approved
                       then set_milestone projectId milestoneId
                              (milestone\<lparr>approvalCount := approvalCount milestone + 1\<rparr>) s1
                       else s1);
                 s3 = s2\<lparr>reviewerStakes := (reviewerStakes s2)(sender :=
                           (reviewerStakes s2 sender)\<lparr>totalReviews :=
                              totalReviews (reviewerStakes s2 sender) + 1\<rparr>),
                         emitted := emitted s2 @
                           [MilestoneReviewed projectId milestoneId sender approved]\<rparr>
             in checkMilestoneApproval projectId milestoneId s3)"

text \<open>\<^verbatim>\<open>_rewardReviewers\<close> has an empty body.\<close>

definition rewardReviewers :: "nat \<Rightarrow> nat \<Rightarrow> funding_state \<Rightarrow> funding_state" where
  "rewardReviewers projectId milestoneId s = s"

definition releaseMilestoneFunds ::
  "(transfer \<Rightarrow> bool) \<Rightarrow> nat \<Rightarrow> nat \<Rightarrow> address \<Rightarrow> nat \<Rightarrow> funding_state
     \<Rightarrow> error + funding_state" where
  "releaseMilestoneFunds tok projectId milestoneId sender now s =
     (let project = projects s projectId;
          milestone = milestone_at s projectId milestoneId;
          (canRelease, milestone1) =
            (if status milestone = Approved then (True, milestone)
             else if autoReleaseEnabled milestone \<and> now > autoReleaseTime milestone \<and>
                     status milestone = InReview
               then (True, milestone\<lparr>status := Approved\<rparr>)
             else (False, milestone))
      in if \<not> canRelease then Inl (Require ''Cannot release funds'')
      else if \<not> status milestone1 \<noteq> Released then Inl (Require ''Already released'')
      else let releaseAmount = fundingAmount milestone1 in
        if releaseAmount * platformFeeRate s > MAX_UINT256 then Inl Panic_0x11
        else let platformFee = (releaseAmount * platformFeeRate s) div 10000 in
          if platformFee > releaseAmount then Inl Panic_0x11
          else let creatorAmount = releaseAmount - platformFee in
            if releasedFunding project + releaseAmount > MAX_UINT256 then Inl Panic_0x11
            else if \<not> tok (TransferOut (fundingToken project) (creator project) creatorAmount)
              then Inl TransferFailed
            else if \<not> tok (TransferOut (fundingToken project) (treasury s) platformFee)
              then Inl TransferFailed
            else let s1 = set_milestone projectId milestoneId (milestone1\<lparr>status := Released\<rparr>) s;
                     s2 = s1\<lparr>projects := (projects s1)(projectId :=
                               (projects s1 projectId)\<lparr>releasedFunding :=
                                  releasedFunding project + releaseAmount\<rparr>),
                             transfers := transfers s1 @
                               [TransferOut (fundingToken project) (creator project) creatorAmount,
                                TransferOut (fundingToken project) (treasury s) platformFee]\<rparr>;
                     s3 = rewardReviewers projectId milestoneId s2
                 in Inr (s3\<lparr>emitted := emitted s3 @
                           [MilestoneReleased projectId milestoneId releaseAmount]\<rparr>))"

definition stakeAsReviewer ::
  "(transfer \<Rightarrow> bool) \<Rightarrow> address \<Rightarrow> funding_state \<Rightarrow> error + funding_state" where
  "stakeAsReviewer tok sender s =
     (if active (reviewerStakes s sender) then Inl (Require ''Already active reviewer'')
      else if \<not> tok (TransferIn (stakeToken s) sender REVIEWER_STAKE_REQUIRED) then Inl TransferFailed
      else Inr (s\<lparr>reviewerStakes := (reviewerStakes s)(sender :=
                     \<lparr>stakedAmount = REVIEWER_STAKE_REQUIRED, successfulReviews = 0,
                      totalReviews = 0, active = True\<rparr>),
                  roleMember := (roleMember s)(REVIEWER_ROLE :=
                     (roleMember s REVIEWER_ROLE)(sender := True)),
                  transfers := transfers s @ [TransferIn (stakeToken s) sender REVIEWER_STAKE_REQUIRED],
                  emitted := emitted s @ [ReviewerStaked sender REVIEWER_STAKE_REQUIRED]\<rparr>))"

text \<open>The read-only queries \<^verbatim>\<open>getProject\<close> and \<^verbatim>\<open>getMilestone\<close>.\<close>

definition getProject ::
  "nat \<Rightarrow> funding_state \<Rightarrow> address \<times> string \<times> address \<times> nat \<times> nat \<times> nat \<times> bool" where
  "getProject projectId s =
     (let project = projects s projectId in
      (creator project, title project, fundingToken project, totalFunding project,
       releasedFunding project, milestoneCount project, projectActive project))"

definition getMilestone ::
  "nat \<Rightarrow> nat \<Rightarrow> funding_state \<Rightarrow> string \<times> nat \<times> nat \<times> MilestoneStatus \<times> nat \<times> string" where
  "getMilestone projectId milestoneId s =
     (let milestone = milestone_at s projectId milestoneId in
      (description milestone, fundingAmount milestone, deadline milestone, status milestone,
       approvalCount milestone, deliverableHash milestone))"

subsection \<open>Reachable states\<close>

text \<open>
  A transaction is sent by an account, and no account has the zero address:
  \<open>sender \<noteq> 0\<close> in every call. The inherited role administration may change the role
  table in any way (\<open>fr_roles\<close>).
\<close>

datatype fcall =
    CreateProject string string address "nat list" "string list" "nat list"
  | FundProject nat nat
  | SubmitMilestone nat nat string
  | ReviewMilestone nat nat bool string
  | ReleaseMilestoneFunds nat nat
  | StakeAsReviewer

fun fexec ::
  "(transfer \<Rightarrow> bool) \<Rightarrow> fcall \<Rightarrow> address \<Rightarrow> nat \<Rightarrow> funding_state \<Rightarrow> error + funding_state" where
  "fexec tok (CreateProject ttl descr token amounts descrs dls) sender now s =
     map_sum id fst (createProject ttl descr token amounts descrs dls sender now s)"
| "fexec tok (FundProject p amount) sender now s = fundProject tok p amount sender s"
| "fexec tok (SubmitMilestone p i h) sender now s = submitMilestone p i h sender now s"
| "fexec tok (ReviewMilestone p i ok comments) sender now s = reviewMilestone p i ok comments sender s"
| "fexec tok (ReleaseMilestoneFunds p i) sender now s = releaseMilestoneFunds tok p i sender now s"
| "fexec tok StakeAsReviewer sender now s = stakeAsReviewer tok sender s"

inductive freach :: "funding_state \<Rightarrow> bool" where
  fr_init: "freach (initialize admin stakeTok treas)"
| fr_call: "freach s \<Longrightarrow> sender \<noteq> 0 \<Longrightarrow> fexec tok c sender now s = Inr s' \<Longrightarrow> freach s'"
| fr_roles: "freach s \<Longrightarrow> freach (s\<lparr>roleMember := r\<rparr>)"

section \<open>Invariants of the reachable states\<close>

text \<open>
  \<open>vinv\<close> holds in every reachable state of QuadraticVoting: every round before the
  current one is finalized, no round after the current one has been started, and a vote
  marked revealed carries between 1 and \<open>MAX_VOTES_PER_PROPOSAL\<close> votes.

  For MilestoneFunding, \<open>panel_inv\<close> says that a reviewer panel holds zero addresses
  only, that no approval has been counted and that no stored status is Approved,
  Rejected or Disputed; \<open>slot_inv\<close> that project slots from \<open>nextProjectId\<close> on are
  untouched, that auto-release is enabled only for the milestones \<open>createProject\<close>
  wrote, with \<open>autoReleaseTime = deadline + AUTO_RELEASE_DELAY\<close>, and that only such
  milestones are Released; \<open>sum_inv\<close> that \<open>releasedFunding\<close> is the sum of the amounts
  of the Released milestones and \<open>totalFunding\<close> the sum of all amounts;
  \<open>log_inv\<close> that a milestone has one \<open>MilestoneReleased\<close> event when it is Released
  and none otherwise, and that two outgoing transfers were made per such event;
  \<open>panel_size_inv\<close> that a panel is empty or the \<open>MIN_REVIEWERS\<close> zero addresses.
\<close>

definition vinv :: "voting_state \<Rightarrow> bool" where
  "vinv s \<longleftrightarrow>
     (\<forall>r. 1 \<le> r \<and> r < currentRoundId s \<longrightarrow> finalized (votingRounds s r)) \<and>
     (\<forall>r. currentRoundId s < r \<longrightarrow> votingRounds s r = zero_round) \<and>
     (\<forall>r a. revealed (votes s r a) \<longrightarrow>
        1 \<le> votesRevealed (votes s r a) \<and> votesRevealed (votes s r a) \<le> MAX_VOTES_PER_PROPOSAL)"

definition panel_inv :: "funding_state \<Rightarrow> bool" where
  "panel_inv s \<longleftrightarrow>
     (\<forall>p i. set (assignedReviewers (milestone_at s p i)) \<subseteq> {0} \<and>
            approvalCount (milestone_at s p i) = 0 \<and>
            status (milestone_at s p i) \<in> {Pending, InReview, Released})"

definition slot_inv :: "funding_state \<Rightarrow> bool" where
  "slot_inv s \<longleftrightarrow>
     (\<forall>p. nextProjectId s \<le> p \<longrightarrow> projects s p = zero_project) \<and>
     (\<forall>p i. autoReleaseEnabled (milestone_at s p i) \<longrightarrow>
        i < milestoneCount (projects s p) \<and>
        autoReleaseTime (milestone_at s p i) = deadline (milestone_at s p i) + AUTO_RELEASE_DELAY) \<and>
     (\<forall>p i. status (milestone_at s p i) = Released \<longrightarrow> autoReleaseEnabled (milestone_at s p i))"

definition released_amount :: "Milestone \<Rightarrow> nat" where
  "released_amount m = (if status m = Released then fundingAmount m else 0)"

definition released_sum :: "funding_state \<Rightarrow> nat \<Rightarrow> nat" where
  "released_sum s p =
     (\<Sum>i<milestoneCount (projects s p). released_amount (milestone_at s p i))"

definition sum_inv :: "funding_state \<Rightarrow> bool" where
  "sum_inv s \<longleftrightarrow>
     (\<forall>p. released_sum s p = releasedFunding (projects s p) \<and>
          (\<Sum>i<milestoneCount (projects s p). fundingAmount (milestone_at s p i)) =
            totalFunding (projects s p) \<and>
          totalFunding (projects s p) \<le> MAX_UINT256)"

fun releases :: "nat \<Rightarrow> nat \<Rightarrow> event \<Rightarrow> bool" where
  "releases p i (MilestoneReleased q j a) = (q = p \<and> j = i)"
| "releases p i _ = False"

fun is_release_event :: "event \<Rightarrow> bool" where
  "is_release_event (MilestoneReleased q j a) = True"
| "is_release_event _ = False"

fun is_outgoing :: "transfer \<Rightarrow> bool" where
  "is_outgoing (TransferOut t r a) = True"
| "is_outgoing (TransferIn t r a) = False"

definition log_inv :: "funding_state \<Rightarrow> bool" where
  "log_inv s \<longleftrightarrow>
     platformFeeRate s = 200 \<and>
     (\<forall>p i. length (filter (releases p i) (emitted s)) =
              (if status (milestone_at s p i) = Released then 1 else 0)) \<and>
     length (filter is_outgoing (transfers s)) = 2 * length (filter is_release_event (emitted s))"

definition finv :: "funding_state \<Rightarrow> bool" where
  "finv s \<longleftrightarrow> panel_inv s \<and> slot_inv s \<and> sum_inv s \<and> log_inv s"


section \<open>Concrete scenarios\<close>

text \<open>
  Concrete states, built by running the operations, at which the theorems below are
  instantiated. In \<open>demo_prims\<close> the hash of a vote is \<open>p + v + n + 1\<close> and every
  Merkle proof verifies; \<open>accept_all\<close> is a token that accepts every transfer,
  \<open>reject_all\<close> one that refuses every transfer.
  Address 1 is the administrator, 5 a project creator, 7 and 8 voters, 11 a
  reviewer.
\<close>

definition demo_prims :: primitives where
  "demo_prims = \<lparr>leafHash = (\<lambda>a. a), voteHash = (\<lambda>p v n. p + v + n + 1),
     merkleVerify = (\<lambda>_ _ _. True)\<rparr>"

definition demo_round :: voting_state where
  "demo_round = projr (startVotingRound 100 50 0 1 10 (initializeVoting 1))"

definition demo_zero_commit :: voting_state where
  "demo_zero_commit = projr (commitVote demo_prims 0 [] 7 20 demo_round)"

definition demo_recommit :: voting_state where
  "demo_recommit = projr (commitVote demo_prims 5 [] 7 21 demo_zero_commit)"

definition demo_commit7 :: voting_state where
  "demo_commit7 = projr (commitVote demo_prims 10 [] 7 20 demo_round)"

definition demo_commit8 :: voting_state where
  "demo_commit8 = projr (commitVote demo_prims 16 [] 8 21 demo_commit7)"

definition demo_reveal7 :: voting_state where
  "demo_reveal7 = projr (revealVote demo_prims 1 5 3 7 70 demo_commit8)"

definition demo_paused :: voting_state where
  "demo_paused = projr (pause 1 (initializeVoting 1))"

definition demo_finalized :: voting_state where
  "demo_finalized = projr (finalizeRound 1 200 demo_round)"

definition demo_round2 :: voting_state where
  "demo_round2 = projr (startVotingRound 100 50 0 1 300 demo_finalized)"

definition accept_all :: "transfer \<Rightarrow> bool" where
  "accept_all t = True"

definition reject_all :: "transfer \<Rightarrow> bool" where
  "reject_all t = False"

definition demo_created :: funding_state where
  "demo_created = fst (projr (createProject ''Library'' ''Docs'' 9 [50, 30, 10]
      [''a'', ''b'', ''c''] [100, 200, 300] 5 10 (initialize 1 2 3)))"

definition demo_submitted :: funding_state where
  "demo_submitted = projr (submitMilestone 1 0 ''Qm'' 5 20 demo_created)"

definition demo_submitted2 :: funding_state where
  "demo_submitted2 = projr (submitMilestone 1 1 ''Qn'' 5 30 demo_submitted)"

definition demo_released :: funding_state where
  "demo_released = projr (releaseMilestoneFunds accept_all 1 0 5
      (100 + AUTO_RELEASE_DELAY + 1) demo_submitted)"

definition demo_big :: funding_state where
  "demo_big = fst (projr (createProject ''Library'' ''Docs'' 9 [2 ^ 255, 1]
      [''a'', ''b''] [100, 200] 5 10 (initialize 1 2 3)))"

definition demo_big_submitted :: funding_state where
  "demo_big_submitted = projr (submitMilestone 1 0 ''Qm'' 5 20 demo_big)"

section \<open>Properties of QuadraticVoting\<close>

lemma vinv_init: "vinv (initializeVoting admin)"
  by (simp add: vinv_def initializeVoting_def zero_voting_def zero_vote_def)

lemma vinv_start:
  assumes "vinv s" "startVotingRound d cd root a t s = Inr s'"
  shows "vinv s'"
  using assms unfolding vinv_def startVotingRound_def
  by (auto simp: less_Suc_eq split: if_splits)

lemma vinv_commit:
  assumes "vinv s" "commitVote K c prf a t s = Inr s'"
  shows "vinv s'"
  using assms unfolding vinv_def commitVote_def
  by (auto simp: Let_def split: if_splits)

lemma vinv_reveal:
  assumes "vinv s" "revealVote K p v n a t s = Inr s'"
  shows "vinv s'"
  using assms unfolding vinv_def revealVote_def
  by (auto simp: Let_def split: if_splits sum.splits)

lemma vinv_finalize:
  assumes "vinv s" "finalizeRound a t s = Inr s'"
  shows "vinv s'"
  using assms unfolding vinv_def finalizeRound_def
  by (auto simp: Let_def split: if_splits)

lemma vinv_pause:
  assumes "vinv s" "pause a s = Inr s'"
  shows "vinv s'"
  using assms unfolding vinv_def pause_def
  by (auto split: if_splits)

lemma vinv_unpause:
  assumes "vinv s" "unpause a s = Inr s'"
  shows "vinv s'"
  using assms unfolding vinv_def unpause_def
  by (auto split: if_splits)

lemma vinv_vexec:
  assumes "vinv s" "vexec K c a t s = Inr s'"
  shows "vinv s'"
  using assms
  by (cases c) (auto intro: vinv_start vinv_commit vinv_reveal vinv_finalize vinv_pause vinv_unpause)

lemma vreach_vinv: "vreach K s \<Longrightarrow> vinv s"
proof (induction rule: vreach.induct)
  case (vr_init admin)
  show ?case by (rule vinv_init)
next
  case (vr_call s c sender now s')
  then show ?case by (blast intro: vinv_vexec)
next
  case (vr_roles s r)
  then show ?case by (simp add: vinv_def)
qed

lemma newton_lower:
  assumes "0 < y" "r * r \<le> x"
  shows "r \<le> newton x y"
proof -
  have "2 * r * y \<le> r * r + y * y"
  proof -
    have "(int r - int y) * (int r - int y) \<ge> 0" by simp
    then have "2 * int r * int y \<le> int r * int r + int y * int y"
      by (simp add: algebra_simps)
    then show ?thesis by (metis (mono_tags) of_nat_add of_nat_le_iff of_nat_mult of_nat_numeral)
  qed
  then have "2 * r * y \<le> x + y * y" using assms by linarith
  then have "(2 * r - y) * y \<le> x" by (simp add: algebra_simps diff_mult_distrib)
  then have "2 * r - y \<le> x div y" using assms(1)
    by (simp add: less_eq_div_iff_mult_less_eq)
  then have "2 * r \<le> x div y + y" by linarith
  then show ?thesis unfolding newton_def by linarith
qed

lemma newton_decreases:
  assumes "0 < y" "x < y * y"
  shows "newton x y < y"
proof -
  have "x div y < y" using assms by (simp add: div_less_iff_less_mult)
  then show ?thesis unfolding newton_def by linarith
qed

lemma div_plus_bound:
  assumes "0 < z" "z \<le> x"
  shows "x div z + z \<le> x + (1::nat)"
proof -
  define q where "q = x div z"
  have q1: "1 \<le> q" using assms by (simp add: q_def less_eq_div_iff_mult_less_eq)
  have qz: "q * z \<le> x" by (simp add: q_def)
  obtain a where a: "q = Suc a" using q1 by (cases q) auto
  obtain b where b: "z = Suc b" using assms(1) by (cases z) auto
  have "q + z \<le> q * z + 1" by (simp add: a b)
  then show ?thesis using qz q_def by linarith
qed

lemma sqrt_loop_correct:
  assumes "0 < x" "x < MAX_UINT256" "0 < y" "y \<le> x" "z = newton x y"
    and "\<And>r. r * r \<le> x \<Longrightarrow> r \<le> y"
  shows "\<exists>r. sqrt_loop x z y = Inr r \<and> r * r \<le> x \<and> x < (r + 1) * (r + 1)"
  using assms
proof (induction x z y rule: sqrt_loop.induct)
  case (1 x z y)
  show ?case
  proof (cases "z < y")
    case False
    have "y * y \<le> x"
    proof (rule ccontr)
      assume "\<not> y * y \<le> x"
      then have "newton x y < y" using "1.prems" by (simp add: newton_decreases)
      then show False using False "1.prems" by simp
    qed
    moreover have "x < (y + 1) * (y + 1)"
    proof (rule ccontr)
      assume "\<not> x < (y + 1) * (y + 1)"
      then have "y + 1 \<le> y" using "1.prems"(6) by (simp add: not_less)
      then show False by simp
    qed
    ultimately show ?thesis using False by (simp add: sqrt_loop.simps [of x z y])
  next
    case True
    have one: "(1::nat) * 1 \<le> x" using "1.prems" by simp
    then have "1 \<le> z" using newton_lower [of y 1 x] "1.prems" by simp
    then have zpos: "0 < z" by simp
    have zx: "z \<le> x" using True "1.prems" by simp
    have nov: "\<not> x div z + z > MAX_UINT256"
      using div_plus_bound [OF zpos zx] "1.prems"(2) by simp
    have lower: "\<And>r. r * r \<le> x \<Longrightarrow> r \<le> z"
      using newton_lower [of y _ x] "1.prems" by simp
    have "\<exists>r. sqrt_loop x ((x div z + z) div 2) z = Inr r \<and> r * r \<le> x \<and> x < (r + 1) * (r + 1)"
      using "1.IH" [OF True _ nov "1.prems"(1,2) zpos zx _ lower] zpos
      by (simp add: newton_def)
    then show ?thesis using True zpos nov by (simp add: sqrt_loop.simps [of x z y])
  qed
qed

text \<open>
  Claim C8, as amended. For every \<open>x\<close> below \<open>2^256 - 1\<close> (zero included) \<open>_sqrt\<close>
  returns, and its result \<open>r\<close> is the floor of the square root:
  \<open>r * r \<le> x < (r + 1) * (r + 1)\<close>. The loop is the terminating recursion
  \<open>sqrt_loop\<close>; neither the division nor the addition in its body fails.
\<close>

theorem sqrt_sol_floor:
  assumes "x < MAX_UINT256"
  shows "\<exists>r. sqrt_sol x = Inr r \<and> r * r \<le> x \<and> x < (r + 1) * (r + 1)"
proof (cases "x = 0")
  case True
  then show ?thesis by (simp add: sqrt_sol_def)
next
  case False
  then have xpos: "0 < x" by simp
  have nz: "(x + 1) div 2 = newton x x" using xpos by (simp add: newton_def)
  have up: "\<And>r. r * r \<le> x \<Longrightarrow> r \<le> x"
  proof -
    fix r assume h: "r * r \<le> x"
    show "r \<le> x"
    proof (cases "r = 0")
      case True then show ?thesis by simp
    next
      case False
      then have "r \<le> r * r" by simp
      then show ?thesis using h by linarith
    qed
  qed
  have "\<exists>r. sqrt_loop x ((x + 1) div 2) x = Inr r \<and> r * r \<le> x \<and> x < (r + 1) * (r + 1)"
    using sqrt_loop_correct [OF xpos assms xpos _ nz up] by simp
  then show ?thesis using False assms by (simp add: sqrt_sol_def)
qed

text \<open>
  C8, witness: the input of \<open>revealVote\<close> for five votes, \<open>5 * 10^18\<close>.
\<close>

theorem sqrt_sol_floor_witness:
  "(5000000000000000000::nat) < MAX_UINT256 \<and>
   (\<exists>r. sqrt_sol 5000000000000000000 = Inr r \<and> r * r \<le> 5000000000000000000 \<and>
        5000000000000000000 < (r + 1) * (r + 1))"
proof -
  have h: "(5000000000000000000::nat) < MAX_UINT256" by (simp add: MAX_UINT256_def)
  show ?thesis using h sqrt_sol_floor [OF h] by simp
qed

text \<open>
  C8, counterexample to "for every input": at the largest \<^verbatim>\<open>uint256\<close> the seed
  \<^verbatim>\<open>(x + 1) / 2\<close> overflows in the checked addition, and \<open>_sqrt\<close> reverts with
  \<^verbatim>\<open>Panic(0x11)\<close> instead of returning the root.
\<close>

theorem sqrt_sol_max_reverts: "sqrt_sol (2 ^ 256 - 1) = Inl Panic_0x11"
  by (simp add: sqrt_sol_def MAX_UINT256_def)

lemma sqrt_sol_5e18: "sqrt_sol 5000000000000000000 = Inr 2236067977"
  by (simp add: sqrt_sol_def MAX_UINT256_def sqrt_loop.simps)

text \<open>
  Claim C4, as amended. Once a non-zero commitment is stored for a round and a caller,
  no successful call of any operation by anyone changes it; and while that round is
  the current one every further \<open>commitVote\<close> of that caller fails, with
  \<open>AlreadyVoted\<close> when the contract is not paused, the time lies in the commit window
  and the eligibility proof verifies (the checks that come first in the source).
\<close>

theorem commitVote_at_most_once:
  assumes "commitment (votes s r sender) \<noteq> 0"
  shows "(r = currentRoundId s \<longrightarrow>
       isl (commitVote K c prf sender now s) \<and>
       (\<not> paused s \<and> startTime (votingRounds s (currentRoundId s)) \<le> now \<and>
        now \<le> commitEndTime (votingRounds s (currentRoundId s)) \<and>
        verifyVoter K sender prf (merkleRoot (votingRounds s (currentRoundId s)))
          \<longrightarrow> commitVote K c prf sender now s = Inl AlreadyVoted)) \<and>
    (\<forall>call a t s'. vexec K call a t s = Inr s' \<longrightarrow>
       commitment (votes s' r sender) = commitment (votes s r sender))"
proof (intro conjI allI impI)
  assume "r = currentRoundId s"
  then show "isl (commitVote K c prf sender now s)"
    using assms by (simp add: commitVote_def Let_def)
next
  assume "r = currentRoundId s"
    and "\<not> paused s \<and> startTime (votingRounds s (currentRoundId s)) \<le> now \<and>
     now \<le> commitEndTime (votingRounds s (currentRoundId s)) \<and>
     verifyVoter K sender prf (merkleRoot (votingRounds s (currentRoundId s)))"
  then show "commitVote K c prf sender now s = Inl AlreadyVoted"
    using assms by (auto simp: commitVote_def Let_def)
next
  fix call a t s'
  assume ex: "vexec K call a t s = Inr s'"
  show "commitment (votes s' r sender) = commitment (votes s r sender)"
  proof (cases call)
    case (StartVotingRound d cd root)
    then show ?thesis using ex by (auto simp: startVotingRound_def split: if_splits)
  next
    case (CommitVote c' prf')
    then show ?thesis using ex assms by (auto simp: commitVote_def Let_def split: if_splits)
  next
    case (RevealVote p v n)
    then show ?thesis using ex
      by (auto simp: revealVote_def Let_def split: if_splits sum.splits)
  next
    case FinalizeRound
    then show ?thesis using ex by (auto simp: finalizeRound_def Let_def split: if_splits)
  next
    case PauseCall
    then show ?thesis using ex by (auto simp: pause_def split: if_splits)
  next
    case UnpauseCall
    then show ?thesis using ex by (auto simp: unpause_def split: if_splits)
  qed
qed

lemmas demo_defs = demo_prims_def demo_round_def demo_zero_commit_def demo_recommit_def
  demo_commit7_def demo_commit8_def demo_reveal7_def demo_paused_def demo_finalized_def

lemmas vop_defs = initializeVoting_def zero_voting_def zero_round_def zero_vote_def
  zero_result_def startVotingRound_def commitVote_def revealVote_def finalizeRound_def
  pause_def unpause_def verifyVoter_def MAX_UINT256_def MAX_VOTES_PER_PROPOSAL_def
  CREDITS_PER_ROUND_def Let_def

text \<open>
  C4, counterexample to "for every commitment value": \<open>commitVote\<close> tests
  \<^verbatim>\<open>commitment != bytes32(0)\<close>, so a stored commitment of zero counts as none. Voter 7
  commits 0, which succeeds and stores 0; the same voter then commits 5 in the same
  round, which succeeds too and replaces the stored value.
\<close>

theorem commitVote_zero_recommit:
  "commitVote demo_prims 0 [] 7 20 demo_round = Inr demo_zero_commit \<and>
   commitment (votes demo_zero_commit 1 7) = 0 \<and>
   commitVote demo_prims 5 [] 7 21 demo_zero_commit = Inr demo_recommit \<and>
   commitment (votes demo_recommit 1 7) = 5"
  by (simp add: demo_defs vop_defs)

text \<open>
  C4, witness: voter 7 has committed 10; a second commit is refused with
  \<open>AlreadyVoted\<close>, and the commit of voter 8 leaves the commitment of voter 7 alone.
\<close>

theorem commitVote_at_most_once_witness:
  "commitment (votes demo_commit7 1 7) \<noteq> 0 \<and> currentRoundId demo_commit7 = 1 \<and>
   commitVote demo_prims 5 [] 7 21 demo_commit7 = Inl AlreadyVoted \<and>
   commitVote demo_prims 16 [] 8 21 demo_commit7 = Inr demo_commit8 \<and>
   commitment (votes demo_commit8 1 7) = commitment (votes demo_commit7 1 7)"
proof -
  have h: "commitment (votes demo_commit7 1 7) \<noteq> 0"
    by (simp add: demo_defs vop_defs)
  have e: "vexec demo_prims (CommitVote 16 []) 8 21 demo_commit7 = Inr demo_commit8"
    by (simp add: demo_defs vop_defs)
  have c: "1 = currentRoundId demo_commit7"
    by (simp add: demo_defs vop_defs)
  have p: "\<not> paused demo_commit7 \<and>
     startTime (votingRounds demo_commit7 (currentRoundId demo_commit7)) \<le> 21 \<and>
     21 \<le> commitEndTime (votingRounds demo_commit7 (currentRoundId demo_commit7)) \<and>
     verifyVoter demo_prims 7 [] (merkleRoot (votingRounds demo_commit7 (currentRoundId demo_commit7)))"
    by (simp add: demo_defs vop_defs)
  note T = commitVote_at_most_once [OF h, of demo_prims 5 "[]" 21]
  from T c p have 1: "commitVote demo_prims 5 [] 7 21 demo_commit7 = Inl AlreadyVoted"
    by blast
  from T e have 2: "commitment (votes demo_commit8 1 7) = commitment (votes demo_commit7 1 7)"
    by blast
  from e have 3: "commitVote demo_prims 16 [] 8 21 demo_commit7 = Inr demo_commit8" by simp
  show ?thesis using h c 1 2 3 by simp
qed

text \<open>
  Claim C5, as amended. While the pause flag of QuadraticVoting is set, \<open>commitVote\<close>
  and \<open>revealVote\<close> (the two operations that carry \<^verbatim>\<open>whenNotPaused\<close>) revert with
  "Pausable: paused", and the read-only query answers as before.
\<close>

theorem paused_blocks_voting:
  assumes "paused s"
  shows "commitVote K c prf a t s = Inl (Require ''Pausable: paused'') \<and>
         revealVote K p v n a t s = Inl (Require ''Pausable: paused'') \<and>
         getProposalScore r p s = results s r p"
  using assms by (simp add: commitVote_def revealVote_def getProposalScore_def)

text \<open>
  C5, witness: the state after the administrator has paused the fresh contract.
\<close>

theorem paused_blocks_voting_witness:
  "paused demo_paused \<and>
   commitVote demo_prims 10 [] 7 20 demo_paused = Inl (Require ''Pausable: paused'') \<and>
   revealVote demo_prims 1 5 3 7 70 demo_paused = Inl (Require ''Pausable: paused'') \<and>
   getProposalScore 1 1 demo_paused = results demo_paused 1 1"
proof -
  have h: "paused demo_paused" by (simp add: demo_defs vop_defs)
  show ?thesis using h paused_blocks_voting [OF h] by simp
qed

text \<open>
  C5, counterexample: \<open>startVotingRound\<close> has no \<^verbatim>\<open>whenNotPaused\<close>. In the paused
  state the administrator starts round 1, and the state changes. (\<open>finalizeRound\<close> has
  no such guard either, and MilestoneFunding has no pause flag at all.)
\<close>

theorem paused_startVotingRound_succeeds:
  "pause 1 (initializeVoting 1) = Inr demo_paused \<and> paused demo_paused \<and>
   \<not> isl (startVotingRound 100 50 0 1 10 demo_paused) \<and>
   currentRoundId (projr (startVotingRound 100 50 0 1 10 demo_paused)) = 1 \<and>
   currentRoundId demo_paused = 0"
  by (simp add: demo_defs vop_defs)

text \<open>
  Claim C7. \<open>revealVote\<close> with a vote count of 0 or above \<open>MAX_VOTES_PER_PROPOSAL\<close>
  always fails, and it fails with \<open>InvalidVoteCount\<close> when the commitment otherwise
  matches (not paused, inside the reveal window, not yet revealed, hash equal to the
  stored commitment). In every reachable state a vote marked revealed has
  \<open>1 \<le> votesRevealed \<le> 10\<close> and \<open>votesRevealed^2 \<le> CREDITS_PER_ROUND\<close>.
\<close>

theorem revealVote_count_bounds:
  assumes "vreach K s"
  shows "((v = 0 \<or> v > MAX_VOTES_PER_PROPOSAL) \<longrightarrow>
            isl (revealVote K p v n a t s) \<and>
            (\<not> paused s \<and> commitEndTime (votingRounds s (currentRoundId s)) \<le> t \<and>
             t \<le> endTime (votingRounds s (currentRoundId s)) \<and>
             \<not> revealed (votes s (currentRoundId s) a) \<and>
             voteHash K p v n = commitment (votes s (currentRoundId s) a)
               \<longrightarrow> revealVote K p v n a t s = Inl InvalidVoteCount)) \<and>
         (revealed (votes s r b) \<longrightarrow>
            1 \<le> votesRevealed (votes s r b) \<and> votesRevealed (votes s r b) \<le> 10 \<and>
            votesRevealed (votes s r b) * votesRevealed (votes s r b) \<le> CREDITS_PER_ROUND)"
proof (intro conjI impI)
  assume "v = 0 \<or> v > MAX_VOTES_PER_PROPOSAL"
  then show "isl (revealVote K p v n a t s)"
    by (auto simp: revealVote_def Let_def)
next
  assume "v = 0 \<or> v > MAX_VOTES_PER_PROPOSAL"
    and "\<not> paused s \<and> commitEndTime (votingRounds s (currentRoundId s)) \<le> t \<and>
             t \<le> endTime (votingRounds s (currentRoundId s)) \<and>
             \<not> revealed (votes s (currentRoundId s) a) \<and>
             voteHash K p v n = commitment (votes s (currentRoundId s) a)"
  then show "revealVote K p v n a t s = Inl InvalidVoteCount"
    by (auto simp: revealVote_def Let_def)
next
  assume rv: "revealed (votes s r b)"
  have "vinv s" using assms by (rule vreach_vinv)
  then have b: "1 \<le> votesRevealed (votes s r b)" "votesRevealed (votes s r b) \<le> 10"
    using rv by (auto simp: vinv_def MAX_VOTES_PER_PROPOSAL_def)
  then have "votesRevealed (votes s r b) * votesRevealed (votes s r b) \<le> 10 * 10"
    by (intro mult_le_mono)
  then show "1 \<le> votesRevealed (votes s r b)" "votesRevealed (votes s r b) \<le> 10"
    "votesRevealed (votes s r b) * votesRevealed (votes s r b) \<le> CREDITS_PER_ROUND"
    using b by (simp_all add: CREDITS_PER_ROUND_def)
qed

lemma demo_reveal7_reach: "vreach demo_prims demo_reveal7"
proof -
  have 0: "vreach demo_prims (initializeVoting 1)" by (rule vr_init)
  have "vexec demo_prims (StartVotingRound 100 50 0) 1 10 (initializeVoting 1) = Inr demo_round"
    by (simp add: demo_defs vop_defs)
  from vr_call [OF 0 this] have 1: "vreach demo_prims demo_round" .
  have "vexec demo_prims (CommitVote 10 []) 7 20 demo_round = Inr demo_commit7"
    by (simp add: demo_defs vop_defs)
  from vr_call [OF 1 this] have 2: "vreach demo_prims demo_commit7" .
  have "vexec demo_prims (CommitVote 16 []) 8 21 demo_commit7 = Inr demo_commit8"
    by (simp add: demo_defs vop_defs)
  from vr_call [OF 2 this] have 3: "vreach demo_prims demo_commit8" .
  have "vexec demo_prims (RevealVote 1 5 3) 7 70 demo_commit8 = Inr demo_reveal7"
    by (simp add: demo_defs vop_defs sqrt_sol_5e18)
  from vr_call [OF 3 this] show ?thesis .
qed

text \<open>
  C7, witness: voters 7 and 8 commit to 5 and to 11 votes; voter 7 reveals 5 votes,
  the reveal of 11 votes by voter 8 is refused with \<open>InvalidVoteCount\<close>.
\<close>

theorem revealVote_count_bounds_witness:
  "vreach demo_prims demo_reveal7 \<and>
   revealVote demo_prims 1 11 3 8 71 demo_reveal7 = Inl InvalidVoteCount \<and>
   revealed (votes demo_reveal7 1 7) \<and> votesRevealed (votes demo_reveal7 1 7) = 5 \<and>
   votesRevealed (votes demo_reveal7 1 7) * votesRevealed (votes demo_reveal7 1 7)
     \<le> CREDITS_PER_ROUND"
proof -
  have r: "vreach demo_prims demo_reveal7" by (rule demo_reveal7_reach)
  have v: "revealed (votes demo_reveal7 1 7)" "votesRevealed (votes demo_reveal7 1 7) = 5"
    by (simp_all add: demo_defs vop_defs sqrt_sol_5e18)
  have g: "\<not> paused demo_reveal7 \<and>
      commitEndTime (votingRounds demo_reveal7 (currentRoundId demo_reveal7)) \<le> 71 \<and>
      71 \<le> endTime (votingRounds demo_reveal7 (currentRoundId demo_reveal7)) \<and>
      \<not> revealed (votes demo_reveal7 (currentRoundId demo_reveal7) 8) \<and>
      voteHash demo_prims 1 11 3 = commitment (votes demo_reveal7 (currentRoundId demo_reveal7) 8)"
    by (simp add: demo_defs vop_defs sqrt_sol_5e18)
  show ?thesis
    using revealVote_count_bounds [OF r, of 11 1 3 8 71 1 7] r v g
    by (simp add: MAX_VOTES_PER_PROPOSAL_def)
qed

text \<open>
  Claim C10. In every reachable state all rounds \<open>1 .. currentRoundId - 1\<close> are
  finalized and no round beyond \<open>currentRoundId\<close> exists, so the current round is the
  only one that can be open. \<open>startVotingRound\<close> fails while the current round exists
  and is not finalized; when it succeeds the new round has the number
  \<open>currentRoundId + 1\<close>, is open, and every other round is left as it was.
\<close>

theorem one_open_round:
  assumes "vreach K s"
  shows "(\<forall>r. 1 \<le> r \<and> r < currentRoundId s \<longrightarrow> finalized (votingRounds s r)) \<and>
         (\<forall>r. currentRoundId s < r \<longrightarrow> votingRounds s r = zero_round) \<and>
         (currentRoundId s \<noteq> 0 \<and> \<not> finalized (votingRounds s (currentRoundId s)) \<longrightarrow>
            isl (startVotingRound d cd root a t s) \<and>
            (hasRole s ADMIN_ROLE a \<longrightarrow>
               startVotingRound d cd root a t s = Inl (Require ''Previous round not finalized''))) \<and>
         (\<forall>s'. startVotingRound d cd root a t s = Inr s' \<longrightarrow>
            currentRoundId s' = currentRoundId s + 1 \<and>
            \<not> finalized (votingRounds s' (currentRoundId s')) \<and>
            (\<forall>r. r \<noteq> currentRoundId s + 1 \<longrightarrow> votingRounds s' r = votingRounds s r))"
proof -
  have "vinv s" using assms by (rule vreach_vinv)
  then have "(\<forall>r. 1 \<le> r \<and> r < currentRoundId s \<longrightarrow> finalized (votingRounds s r)) \<and>
         (\<forall>r. currentRoundId s < r \<longrightarrow> votingRounds s r = zero_round)"
    by (simp add: vinv_def)
  moreover have "currentRoundId s \<noteq> 0 \<and> \<not> finalized (votingRounds s (currentRoundId s)) \<longrightarrow>
            isl (startVotingRound d cd root a t s) \<and>
            (hasRole s ADMIN_ROLE a \<longrightarrow>
               startVotingRound d cd root a t s = Inl (Require ''Previous round not finalized''))"
    by (simp add: startVotingRound_def)
  moreover have "\<forall>s'. startVotingRound d cd root a t s = Inr s' \<longrightarrow>
            currentRoundId s' = currentRoundId s + 1 \<and>
            \<not> finalized (votingRounds s' (currentRoundId s')) \<and>
            (\<forall>r. r \<noteq> currentRoundId s + 1 \<longrightarrow> votingRounds s' r = votingRounds s r)"
    by (auto simp: startVotingRound_def split: if_splits)
  ultimately show ?thesis by blast
qed

lemma demo_finalized_reach: "vreach demo_prims demo_finalized"
proof -
  have 0: "vreach demo_prims (initializeVoting 1)" by (rule vr_init)
  have "vexec demo_prims (StartVotingRound 100 50 0) 1 10 (initializeVoting 1) = Inr demo_round"
    by (simp add: demo_defs vop_defs)
  from vr_call [OF 0 this] have 1: "vreach demo_prims demo_round" .
  have "vexec demo_prims FinalizeRound 1 200 demo_round = Inr demo_finalized"
    by (simp add: demo_defs vop_defs)
  from vr_call [OF 1 this] show ?thesis .
qed

text \<open>
  C10, witness: with round 1 open a second start is refused; after round 1 has been
  finalized the start succeeds and gives round 2.
\<close>

theorem one_open_round_witness:
  "vreach demo_prims demo_round \<and> vreach demo_prims demo_finalized \<and>
   currentRoundId demo_round \<noteq> 0 \<and>
   \<not> finalized (votingRounds demo_round (currentRoundId demo_round)) \<and>
   hasRole demo_round ADMIN_ROLE 1 \<and>
   startVotingRound 100 50 0 1 300 demo_round = Inl (Require ''Previous round not finalized'') \<and>
   finalized (votingRounds demo_finalized 1) \<and>
   startVotingRound 100 50 0 1 300 demo_finalized = Inr demo_round2 \<and>
   currentRoundId demo_round2 = 2 \<and>
   votingRounds demo_round2 1 = votingRounds demo_finalized 1"
proof -
  have 0: "vreach demo_prims (initializeVoting 1)" by (rule vr_init)
  have "vexec demo_prims (StartVotingRound 100 50 0) 1 10 (initializeVoting 1) = Inr demo_round"
    by (simp add: demo_defs vop_defs)
  from vr_call [OF 0 this] have r1: "vreach demo_prims demo_round" .
  have r2: "vreach demo_prims demo_finalized" by (rule demo_finalized_reach)
  have a: "currentRoundId demo_round \<noteq> 0"
    "\<not> finalized (votingRounds demo_round (currentRoundId demo_round))"
    "hasRole demo_round ADMIN_ROLE 1"
    "finalized (votingRounds demo_finalized 1)"
    by (simp_all add: demo_defs vop_defs)
  have c: "currentRoundId demo_finalized = 1"
    by (simp add: demo_defs vop_defs)
  have e: "startVotingRound 100 50 0 1 300 demo_finalized = Inr demo_round2"
    by (simp add: demo_round2_def demo_defs vop_defs)
  note T1 = one_open_round [OF r1, of 100 50 0 1 300]
  note T2 = one_open_round [OF r2, of 100 50 0 1 300]
  from T1 a have x: "startVotingRound 100 50 0 1 300 demo_round =
      Inl (Require ''Previous round not finalized'')"
    by blast
  from T2 e have y: "currentRoundId demo_round2 = currentRoundId demo_finalized + 1 \<and>
      (\<forall>r. r \<noteq> currentRoundId demo_finalized + 1 \<longrightarrow>
         votingRounds demo_round2 r = votingRounds demo_finalized r)"
    by blast
  then have z: "currentRoundId demo_round2 = 2" "votingRounds demo_round2 1 = votingRounds demo_finalized 1"
    using c by simp_all
  show ?thesis using r1 r2 a e x z by blast
qed

section \<open>Properties of MilestoneFunding\<close>

lemma milestone_at_set [simp]:
  "milestone_at (set_milestone p i m s) p' i' =
     (if p' = p \<and> i' = i then m else milestone_at s p' i')"
  by (simp add: milestone_at_def set_milestone_def)

lemma set_milestone_fields [simp]:
  "nextProjectId (set_milestone p i m s) = nextProjectId s"
  "reviewerStakes (set_milestone p i m s) = reviewerStakes s"
  "reviewerVotes (set_milestone p i m s) = reviewerVotes s"
  "stakeToken (set_milestone p i m s) = stakeToken s"
  "treasury (set_milestone p i m s) = treasury s"
  "platformFeeRate (set_milestone p i m s) = platformFeeRate s"
  "roleMember (set_milestone p i m s) = roleMember s"
  "transfers (set_milestone p i m s) = transfers s"
  "emitted (set_milestone p i m s) = emitted s"
  by (simp_all add: set_milestone_def)

lemma set_milestone_project [simp]:
  "creator (projects (set_milestone p i m s) q) = creator (projects s q)"
  "fundingToken (projects (set_milestone p i m s) q) = fundingToken (projects s q)"
  "totalFunding (projects (set_milestone p i m s) q) = totalFunding (projects s q)"
  "releasedFunding (projects (set_milestone p i m s) q) = releasedFunding (projects s q)"
  "milestoneCount (projects (set_milestone p i m s) q) = milestoneCount (projects s q)"
  "projectActive (projects (set_milestone p i m s) q) = projectActive (projects s q)"
  by (simp_all add: set_milestone_def)

lemma milestone_at_upd [simp]:
  "milestone_at (s\<lparr>emitted := e\<rparr>) p i = milestone_at s p i"
  "milestone_at (s\<lparr>transfers := t\<rparr>) p i = milestone_at s p i"
  "milestone_at (s\<lparr>reviewerVotes := v\<rparr>) p i = milestone_at s p i"
  "milestone_at (s\<lparr>reviewerStakes := k\<rparr>) p i = milestone_at s p i"
  "milestone_at (s\<lparr>roleMember := r\<rparr>) p i = milestone_at s p i"
  by (simp_all add: milestone_at_def)

lemma isAssigned_set: "isAssigned xs a \<longleftrightarrow> a \<in> set xs"
  by (induction xs) auto

lemma review_never_succeeds:
  assumes "panel_inv s" "sender \<noteq> 0"
  shows "isl (reviewMilestone p i ok comments sender s)"
proof -
  have "set (assignedReviewers (milestone_at s p i)) \<subseteq> {0}"
    using assms(1) by (simp add: panel_inv_def)
  then have "\<not> isAssigned (assignedReviewers (milestone_at s p i)) sender"
    using assms(2) by (auto simp: isAssigned_set)
  then show ?thesis by (simp add: reviewMilestone_def Let_def)
qed

lemma createMilestones_frame:
  assumes "createMilestones now i xs ms t = Inr (ms', t')"
  shows "assignedReviewers (ms' j) = assignedReviewers (ms j) \<and>
         approvalCount (ms' j) = approvalCount (ms j) \<and>
         (status (ms' j) = status (ms j) \<or> status (ms' j) = Pending)"
  using assms
proof (induction xs arbitrary: i ms t)
  case Nil
  then show ?case by simp
next
  case (Cons x xs)
  obtain a d dl where x: "x = (a, d, dl)" by (cases x) auto
  from Cons.prems have
    "createMilestones now (i + 1) xs
       (ms(i := (ms i)\<lparr>description := d, fundingAmount := a, deadline := dl,
                        status := Pending, autoReleaseEnabled := True,
                        autoReleaseTime := dl + AUTO_RELEASE_DELAY\<rparr>)) (t + a) = Inr (ms', t')"
    by (simp add: x split: if_splits)
  from Cons.IH [OF this] show ?case by (auto split: if_splits)
qed

lemma createMilestones_slots:
  assumes "createMilestones now i xs ms t = Inr (ms', t')"
  shows "(j < i \<or> i + length xs \<le> j \<longrightarrow> ms' j = ms j) \<and>
         (i \<le> j \<and> j < i + length xs \<longrightarrow>
            status (ms' j) = Pending \<and> autoReleaseEnabled (ms' j) \<and>
            autoReleaseTime (ms' j) = deadline (ms' j) + AUTO_RELEASE_DELAY \<and>
            fundingAmount (ms' j) = fst (xs ! (j - i)))"
  using assms
proof (induction xs arbitrary: i ms t)
  case Nil
  then show ?case by auto
next
  case (Cons x xs)
  obtain a d dl where x: "x = (a, d, dl)" by (cases x) auto
  let ?ms = "ms(i := (ms i)\<lparr>description := d, fundingAmount := a, deadline := dl,
                        status := Pending, autoReleaseEnabled := True,
                        autoReleaseTime := dl + AUTO_RELEASE_DELAY\<rparr>)"
  from Cons.prems have rec: "createMilestones now (i + 1) xs ?ms (t + a) = Inr (ms', t')"
    by (simp add: x split: if_splits)
  note IH = Cons.IH [OF rec]
  show ?case
  proof (cases "j = i")
    case True
    then have "ms' j = ?ms j" using IH by simp
    then show ?thesis using True by (simp add: x)
  next
    case False
    show ?thesis
    proof (cases "j < i")
      case True
      then show ?thesis using IH by simp
    next
      case False
      with \<open>j \<noteq> i\<close> have gt: "i + 1 \<le> j" by simp
      then have "(x # xs) ! (j - i) = xs ! (j - (i + 1))"
        by (metis Suc_diff_le Suc_eq_plus1 diff_Suc_Suc nth_Cons_Suc)
      then show ?thesis using IH gt by auto
    qed
  qed
qed

lemma createMilestones_total:
  assumes "createMilestones now i xs ms t = Inr (ms', t')" "t \<le> MAX_UINT256"
  shows "t' = t + sum_list (map fst xs) \<and> t' \<le> MAX_UINT256"
  using assms
proof (induction xs arbitrary: i ms t)
  case Nil
  then show ?case by simp
next
  case (Cons x xs)
  obtain a d dl where x: "x = (a, d, dl)" by (cases x) auto
  from Cons.prems have rec:
    "createMilestones now (i + 1) xs
       (ms(i := (ms i)\<lparr>description := d, fundingAmount := a, deadline := dl,
                        status := Pending, autoReleaseEnabled := True,
                        autoReleaseTime := dl + AUTO_RELEASE_DELAY\<rparr>)) (t + a) = Inr (ms', t')"
    and le: "t + a \<le> MAX_UINT256"
    by (simp_all add: x split: if_splits)
  from Cons.IH [OF rec le] show ?case by (simp add: x)
qed

lemma createMilestones_deadlines:
  assumes "createMilestones now i xs ms t = Inr (ms', t')"
  shows "\<forall>x \<in> set xs. now < snd (snd x)"
  using assms
proof (induction xs arbitrary: i ms t)
  case Nil
  then show ?case by simp
next
  case (Cons x xs)
  obtain a d dl where x: "x = (a, d, dl)" by (cases x) auto
  from Cons.prems have rec:
    "createMilestones now (i + 1) xs
       (ms(i := (ms i)\<lparr>description := d, fundingAmount := a, deadline := dl,
                        status := Pending, autoReleaseEnabled := True,
                        autoReleaseTime := dl + AUTO_RELEASE_DELAY\<rparr>)) (t + a) = Inr (ms', t')"
    and dl: "now < dl"
    by (simp_all add: x split: if_splits)
  from Cons.IH [OF rec] dl show ?case by (simp add: x)
qed

text \<open>What a successful createProject returns, in one place.\<close>

lemma createProject_result:
  assumes "createProject ttl descr token amounts descrs dls sender now s = Inr (s', pid)"
  shows "\<exists>ms tot.
     createMilestones now 0 (zip amounts (zip descrs dls)) (milestones (projects s (nextProjectId s))) 0
       = Inr (ms, tot) \<and>
     pid = nextProjectId s \<and> 2 \<le> length amounts \<and> length amounts \<le> 8 \<and>
     length descrs = length amounts \<and> length dls = length amounts \<and>
     s' = s\<lparr>nextProjectId := nextProjectId s + 1,
            projects := (projects s)(nextProjectId s :=
               (projects s (nextProjectId s))\<lparr>creator := sender, title := ttl,
                  projectDescription := descr, fundingToken := token,
                  milestoneCount := length amounts, projectActive := True, createdAt := now,
                  milestones := ms, totalFunding := tot\<rparr>),
            emitted := emitted s @ [ProjectCreated (nextProjectId s) sender tot]\<rparr>"
  using assms unfolding createProject_def Let_def
  by (auto split: if_splits sum.splits prod.splits)

lemma panel_inv_init: "panel_inv (initialize a b c)"
  by (simp add: panel_inv_def initialize_def milestone_at_def zero_project_def zero_milestone_def)

lemma slot_inv_init: "slot_inv (initialize a b c)"
  by (simp add: slot_inv_def initialize_def milestone_at_def zero_project_def zero_milestone_def)

lemma sum_inv_init: "sum_inv (initialize a b c)"
  by (simp add: sum_inv_def released_sum_def released_amount_def initialize_def milestone_at_def
      zero_project_def zero_milestone_def)

lemma panel_inv_roles: "panel_inv (s\<lparr>roleMember := r\<rparr>) = panel_inv s"
  by (simp add: panel_inv_def)

lemma slot_inv_roles: "slot_inv (s\<lparr>roleMember := r\<rparr>) = slot_inv s"
  by (simp add: slot_inv_def)

lemma sum_inv_roles: "sum_inv (s\<lparr>roleMember := r\<rparr>) = sum_inv s"
  by (simp add: sum_inv_def released_sum_def)

subsection \<open>createProject\<close>

lemma createProject_milestone_at:
  assumes "createProject ttl descr token amounts descrs dls sender now s = Inr (s', pid)"
  obtains ms tot where
    "createMilestones now 0 (zip amounts (zip descrs dls))
        (milestones (projects s (nextProjectId s))) 0 = Inr (ms, tot)"
    "\<And>p i. milestone_at s' p i = (if p = nextProjectId s then ms i else milestone_at s p i)"
    "\<And>p. p \<noteq> nextProjectId s \<Longrightarrow> projects s' p = projects s p"
    "milestoneCount (projects s' (nextProjectId s)) = length amounts"
    "totalFunding (projects s' (nextProjectId s)) = tot"
    "releasedFunding (projects s' (nextProjectId s)) = releasedFunding (projects s (nextProjectId s))"
    "nextProjectId s' = nextProjectId s + 1"
    "length descrs = length amounts" "length dls = length amounts"
    "emitted s' = emitted s @ [ProjectCreated (nextProjectId s) sender tot]"
    "transfers s' = transfers s" "platformFeeRate s' = platformFeeRate s"
proof -
  from createProject_result [OF assms] obtain ms tot where
    cm: "createMilestones now 0 (zip amounts (zip descrs dls))
        (milestones (projects s (nextProjectId s))) 0 = Inr (ms, tot)"
    and len: "length descrs = length amounts" "length dls = length amounts"
    and s': "s' = s\<lparr>nextProjectId := nextProjectId s + 1,
            projects := (projects s)(nextProjectId s :=
               (projects s (nextProjectId s))\<lparr>creator := sender, title := ttl,
                  projectDescription := descr, fundingToken := token,
                  milestoneCount := length amounts, projectActive := True, createdAt := now,
                  milestones := ms, totalFunding := tot\<rparr>),
            emitted := emitted s @ [ProjectCreated (nextProjectId s) sender tot]\<rparr>"
    by blast
  show ?thesis
    by (rule that [OF cm]) (simp_all add: s' milestone_at_def len)
qed

lemma panel_inv_create:
  assumes "panel_inv s" "createProject ttl descr token amounts descrs dls sender now s = Inr (s', pid)"
  shows "panel_inv s'"
proof -
  from assms(2) obtain ms tot where
    cm: "createMilestones now 0 (zip amounts (zip descrs dls))
        (milestones (projects s (nextProjectId s))) 0 = Inr (ms, tot)"
    and at: "\<And>p i. milestone_at s' p i = (if p = nextProjectId s then ms i else milestone_at s p i)"
    by (elim createProject_milestone_at) (rule that, assumption+)
  show ?thesis unfolding panel_inv_def
  proof (intro allI)
    fix p i
    show "set (assignedReviewers (milestone_at s' p i)) \<subseteq> {0} \<and>
            approvalCount (milestone_at s' p i) = 0 \<and>
            status (milestone_at s' p i) \<in> {Pending, InReview, Released}"
    proof (cases "p = nextProjectId s")
      case False
      then show ?thesis using assms(1) at by (simp add: panel_inv_def)
    next
      case True
      have old: "set (assignedReviewers (milestone_at s p i)) \<subseteq> {0} \<and>
            approvalCount (milestone_at s p i) = 0 \<and>
            status (milestone_at s p i) \<in> {Pending, InReview, Released}"
        using assms(1) by (simp add: panel_inv_def)
      from createMilestones_frame [OF cm, of i] old [unfolded milestone_at_def] True
      show ?thesis by (auto simp: at)
    qed
  qed
qed

lemma slot_inv_create:
  assumes "slot_inv s" "createProject ttl descr token amounts descrs dls sender now s = Inr (s', pid)"
  shows "slot_inv s'"
proof -
  from assms(2) obtain ms tot where
    cm: "createMilestones now 0 (zip amounts (zip descrs dls))
        (milestones (projects s (nextProjectId s))) 0 = Inr (ms, tot)"
    and at: "\<And>p i. milestone_at s' p i = (if p = nextProjectId s then ms i else milestone_at s p i)"
    and other: "\<And>p. p \<noteq> nextProjectId s \<Longrightarrow> projects s' p = projects s p"
    and cnt: "milestoneCount (projects s' (nextProjectId s)) = length amounts"
    and nxt: "nextProjectId s' = nextProjectId s + 1"
    and len: "length descrs = length amounts" "length dls = length amounts"
    by (elim createProject_milestone_at) (rule that, assumption+)
  have fresh: "milestones (projects s (nextProjectId s)) = (\<lambda>_. zero_milestone)"
    using assms(1) by (simp add: slot_inv_def zero_project_def)
  have new: "\<And>i. (autoReleaseEnabled (ms i) \<longrightarrow> i < length amounts \<and>
                  autoReleaseTime (ms i) = deadline (ms i) + AUTO_RELEASE_DELAY) \<and>
                 status (ms i) \<noteq> Released"
  proof -
    fix i
    show "(autoReleaseEnabled (ms i) \<longrightarrow> i < length amounts \<and>
                  autoReleaseTime (ms i) = deadline (ms i) + AUTO_RELEASE_DELAY) \<and>
                 status (ms i) \<noteq> Released"
      using createMilestones_slots [OF cm, of i] len
      by (cases "i < length amounts") (auto simp: fresh zero_milestone_def)
  qed
  show ?thesis unfolding slot_inv_def
  proof (intro conjI allI impI)
    fix p assume "nextProjectId s' \<le> p"
    then show "projects s' p = zero_project"
      using assms(1) nxt other [of p] by (simp add: slot_inv_def)
  next
    fix p i assume en: "autoReleaseEnabled (milestone_at s' p i)"
    show "i < milestoneCount (projects s' p)"
      using en new [of i] assms(1) at [of p i] other [of p] cnt
      by (cases "p = nextProjectId s") (auto simp: slot_inv_def)
  next
    fix p i assume en: "autoReleaseEnabled (milestone_at s' p i)"
    show "autoReleaseTime (milestone_at s' p i) = deadline (milestone_at s' p i) + AUTO_RELEASE_DELAY"
      using en new [of i] assms(1) at [of p i]
      by (cases "p = nextProjectId s") (auto simp: slot_inv_def)
  next
    fix p i assume "status (milestone_at s' p i) = Released"
    then show "autoReleaseEnabled (milestone_at s' p i)"
      using new [of i] assms(1) at [of p i]
      by (cases "p = nextProjectId s") (auto simp: slot_inv_def)
  qed
qed

lemma sum_inv_create:
  assumes "slot_inv s" "sum_inv s"
    "createProject ttl descr token amounts descrs dls sender now s = Inr (s', pid)"
  shows "sum_inv s'"
proof -
  from assms(3) obtain ms tot where
    cm: "createMilestones now 0 (zip amounts (zip descrs dls))
        (milestones (projects s (nextProjectId s))) 0 = Inr (ms, tot)"
    and at: "\<And>p i. milestone_at s' p i = (if p = nextProjectId s then ms i else milestone_at s p i)"
    and other: "\<And>p. p \<noteq> nextProjectId s \<Longrightarrow> projects s' p = projects s p"
    and cnt: "milestoneCount (projects s' (nextProjectId s)) = length amounts"
    and tot: "totalFunding (projects s' (nextProjectId s)) = tot"
    and rel: "releasedFunding (projects s' (nextProjectId s)) = releasedFunding (projects s (nextProjectId s))"
    and len: "length descrs = length amounts" "length dls = length amounts"
    by (elim createProject_milestone_at) (rule that, assumption+)
  have fresh: "projects s (nextProjectId s) = zero_project"
    using assms(1) by (simp add: slot_inv_def)
  have st: "\<And>i. status (ms i) \<noteq> Released"
  proof -
    fix i show "status (ms i) \<noteq> Released"
      using createMilestones_slots [OF cm, of i] len
      by (cases "i < length amounts") (auto simp: fresh zero_project_def zero_milestone_def)
  qed
  have fsts: "map fst (zip amounts (zip descrs dls)) = amounts"
    using len by (simp add: map_fst_zip)
  have fa: "\<And>i. i < length amounts \<Longrightarrow> fundingAmount (ms i) = amounts ! i"
  proof -
    fix i assume i: "i < length amounts"
    then show "fundingAmount (ms i) = amounts ! i"
      using createMilestones_slots [OF cm, of i] len by simp
  qed
  have t: "tot = sum_list amounts \<and> tot \<le> MAX_UINT256"
    using createMilestones_total [OF cm] fsts by simp
  have "sum_list amounts = (\<Sum>i<length amounts. amounts ! i)"
    by (simp add: sum_list_sum_nth atLeast0LessThan)
  also have "\<dots> = (\<Sum>i<length amounts. fundingAmount (ms i))"
    by (rule sum.cong) (simp_all add: fa)
  finally have tsum: "tot = (\<Sum>i<length amounts. fundingAmount (ms i))" using t by simp
  show ?thesis unfolding sum_inv_def
  proof (intro allI)
    fix p
    show "released_sum s' p = releasedFunding (projects s' p) \<and>
          (\<Sum>i<milestoneCount (projects s' p). fundingAmount (milestone_at s' p i)) =
            totalFunding (projects s' p) \<and>
          totalFunding (projects s' p) \<le> MAX_UINT256"
    proof (cases "p = nextProjectId s")
      case False
      have old: "released_sum s p = releasedFunding (projects s p) \<and>
          (\<Sum>i<milestoneCount (projects s p). fundingAmount (milestone_at s p i)) =
            totalFunding (projects s p) \<and>
          totalFunding (projects s p) \<le> MAX_UINT256"
        using assms(2) by (simp add: sum_inv_def)
      have "released_sum s' p = released_sum s p"
        using False other [of p] by (simp add: released_sum_def at)
      moreover have "(\<Sum>i<milestoneCount (projects s' p). fundingAmount (milestone_at s' p i)) =
            (\<Sum>i<milestoneCount (projects s p). fundingAmount (milestone_at s p i))"
        using False other [of p] by (simp add: at)
      ultimately show ?thesis using old other [OF False] by simp
    next
      case True
      have "released_sum s' p = 0"
        by (simp add: released_sum_def released_amount_def True at st)
      moreover have "releasedFunding (projects s' p) = 0"
        using rel fresh True by (simp add: zero_project_def)
      ultimately show ?thesis using tsum t
        by (simp add: True cnt tot at)
    qed
  qed
qed

subsection \<open>fundProject, stakeAsReviewer\<close>

lemma fundProject_result:
  assumes "fundProject tok p amount sender s = Inr s'"
  shows "s' = s\<lparr>transfers := transfers s @ [TransferIn (fundingToken (projects s p)) sender amount]\<rparr>"
  using assms by (simp add: fundProject_def Let_def split: if_splits)

lemma stakeAsReviewer_result:
  assumes "stakeAsReviewer tok sender s = Inr s'"
  shows "projects s' = projects s \<and> nextProjectId s' = nextProjectId s \<and>
         platformFeeRate s' = platformFeeRate s \<and>
         transfers s' = transfers s @ [TransferIn (stakeToken s) sender REVIEWER_STAKE_REQUIRED] \<and>
         emitted s' = emitted s @ [ReviewerStaked sender REVIEWER_STAKE_REQUIRED]"
  using assms by (auto simp: stakeAsReviewer_def split: if_splits)

lemma projects_eq_invs:
  assumes "projects s' = projects s" "nextProjectId s' = nextProjectId s"
  shows "panel_inv s' = panel_inv s" "slot_inv s' = slot_inv s" "sum_inv s' = sum_inv s"
  using assms
  by (simp_all add: panel_inv_def slot_inv_def sum_inv_def released_sum_def milestone_at_def)

subsection \<open>submitMilestone\<close>

lemma submitMilestone_result:
  assumes "submitMilestone p i h sender now s = Inr s'"
  shows "sender = creator (projects s p) \<and> status (milestone_at s p i) = Pending \<and>
         s' = (set_milestone p i
                ((milestone_at s p i)\<lparr>deliverableHash := h, status := InReview,
                    submissionTime := now, assignedReviewers := replicate MIN_REVIEWERS 0\<rparr>) s)
              \<lparr>emitted := emitted s @ [MilestoneSubmitted p i h]\<rparr>"
  using assms
  by (auto simp: submitMilestone_def assignReviewers_def Let_def set_milestone_def
      milestone_at_def fun_eq_iff split: if_splits)

lemma panel_inv_submit:
  assumes "panel_inv s" "submitMilestone p i h sender now s = Inr s'"
  shows "panel_inv s'"
  using assms(1) submitMilestone_result [OF assms(2)]
  by (auto simp: panel_inv_def)

lemma slot_inv_submit:
  assumes "slot_inv s" "sender \<noteq> 0" "submitMilestone p i h sender now s = Inr s'"
  shows "slot_inv s'"
proof -
  note r = submitMilestone_result [OF assms(3)]
  have "creator (projects s p) \<noteq> 0" using r assms(2) by simp
  then have "projects s p \<noteq> zero_project" by (auto simp: zero_project_def)
  then have lt: "p < nextProjectId s" using assms(1) by (auto simp: slot_inv_def not_le [symmetric])
  have s': "s' = (set_milestone p i
                ((milestone_at s p i)\<lparr>deliverableHash := h, status := InReview,
                    submissionTime := now, assignedReviewers := replicate MIN_REVIEWERS 0\<rparr>) s)
              \<lparr>emitted := emitted s @ [MilestoneSubmitted p i h]\<rparr>"
    using r by simp
  have a: "\<forall>q. nextProjectId s' \<le> q \<longrightarrow> projects s' q = zero_project"
    using assms(1) lt by (auto simp: s' slot_inv_def set_milestone_def)
  have b: "\<forall>q j. autoReleaseEnabled (milestone_at s' q j) \<longrightarrow>
        j < milestoneCount (projects s' q) \<and>
        autoReleaseTime (milestone_at s' q j) = deadline (milestone_at s' q j) + AUTO_RELEASE_DELAY"
    using assms(1) by (auto simp: s' slot_inv_def)
  have c: "\<forall>q j. status (milestone_at s' q j) = Released \<longrightarrow> autoReleaseEnabled (milestone_at s' q j)"
    using assms(1) by (auto simp: s' slot_inv_def)
  show ?thesis unfolding slot_inv_def using a b c by blast
qed

lemma sum_inv_submit:
  assumes "sum_inv s" "submitMilestone p i h sender now s = Inr s'"
  shows "sum_inv s'"
proof -
  note r = submitMilestone_result [OF assms(2)]
  have s': "s' = (set_milestone p i
                ((milestone_at s p i)\<lparr>deliverableHash := h, status := InReview,
                    submissionTime := now, assignedReviewers := replicate MIN_REVIEWERS 0\<rparr>) s)
              \<lparr>emitted := emitted s @ [MilestoneSubmitted p i h]\<rparr>"
    using r by simp
  have pend: "status (milestone_at s p i) = Pending" using r by simp
  have ra: "\<And>q j. released_amount (milestone_at s' q j) = released_amount (milestone_at s q j)"
    using pend by (auto simp: s' released_amount_def)
  have fa: "\<And>q j. fundingAmount (milestone_at s' q j) = fundingAmount (milestone_at s q j)"
    by (auto simp: s')
  have pr: "\<And>q. milestoneCount (projects s' q) = milestoneCount (projects s q) \<and>
                 releasedFunding (projects s' q) = releasedFunding (projects s q) \<and>
                 totalFunding (projects s' q) = totalFunding (projects s q)"
    by (simp add: s')
  show ?thesis using assms(1) by (simp add: sum_inv_def released_sum_def ra fa pr)
qed

subsection \<open>releaseMilestoneFunds\<close>

lemma releaseMilestoneFunds_result:
  assumes "releaseMilestoneFunds tok p i sender now s = Inr s'"
    and "status (milestone_at s p i) \<noteq> Approved"
  shows "status (milestone_at s p i) = InReview \<and> autoReleaseEnabled (milestone_at s p i) \<and>
         autoReleaseTime (milestone_at s p i) < now \<and>
         fundingAmount (milestone_at s p i) * platformFeeRate s \<le> MAX_UINT256 \<and>
         releasedFunding (projects s p) + fundingAmount (milestone_at s p i) \<le> MAX_UINT256 \<and>
         s' = (set_milestone p i ((milestone_at s p i)\<lparr>status := Released\<rparr>) s)
              \<lparr>projects := (projects (set_milestone p i ((milestone_at s p i)\<lparr>status := Released\<rparr>) s))
                  (p := (projects (set_milestone p i ((milestone_at s p i)\<lparr>status := Released\<rparr>) s) p)
                     \<lparr>releasedFunding := releasedFunding (projects s p) + fundingAmount (milestone_at s p i)\<rparr>),
                transfers := transfers s @
                  [TransferOut (fundingToken (projects s p)) (creator (projects s p))
                     (fundingAmount (milestone_at s p i) -
                        fundingAmount (milestone_at s p i) * platformFeeRate s div 10000),
                   TransferOut (fundingToken (projects s p)) (treasury s)
                     (fundingAmount (milestone_at s p i) * platformFeeRate s div 10000)],
                emitted := emitted s @ [MilestoneReleased p i (fundingAmount (milestone_at s p i))]\<rparr>"
  using assms
  by (auto simp: releaseMilestoneFunds_def rewardReviewers_def Let_def split: if_splits)

lemma release_effect:
  assumes "releaseMilestoneFunds tok p i sender now s = Inr s'"
    and "status (milestone_at s p i) \<noteq> Approved"
  shows "milestone_at s' q j =
           (if q = p \<and> j = i then (milestone_at s p i)\<lparr>status := Released\<rparr> else milestone_at s q j)"
    and "milestoneCount (projects s' q) = milestoneCount (projects s q)"
    and "totalFunding (projects s' q) = totalFunding (projects s q)"
    and "releasedFunding (projects s' q) =
           (if q = p then releasedFunding (projects s p) + fundingAmount (milestone_at s p i)
            else releasedFunding (projects s q))"
    and "nextProjectId s' = nextProjectId s"
    and "q \<noteq> p \<Longrightarrow> projects s' q = projects s q"
    and "platformFeeRate s' = platformFeeRate s"
  using releaseMilestoneFunds_result [OF assms]
  by (auto simp: milestone_at_def set_milestone_def)

lemma panel_inv_status:
  assumes "panel_inv s"
  shows "status (milestone_at s p i) \<in> {Pending, InReview, Released}"
  using assms unfolding panel_inv_def by blast

lemma panel_inv_not_approved:
  assumes "panel_inv s"
  shows "status (milestone_at s p i) \<noteq> Approved"
  using panel_inv_status [OF assms, of p i] by auto

lemma panel_inv_release:
  assumes "panel_inv s" "releaseMilestoneFunds tok p i sender now s = Inr s'"
  shows "panel_inv s'"
proof -
  have na: "status (milestone_at s p i) \<noteq> Approved"
    using assms(1) by (rule panel_inv_not_approved)
  show ?thesis
    using assms(1) by (auto simp: panel_inv_def release_effect(1) [OF assms(2) na])
qed

lemma slot_inv_release:
  assumes "panel_inv s" "slot_inv s" "releaseMilestoneFunds tok p i sender now s = Inr s'"
  shows "slot_inv s'"
proof -
  have na: "status (milestone_at s p i) \<noteq> Approved"
    using assms(1) by (rule panel_inv_not_approved)
  note r = releaseMilestoneFunds_result [OF assms(3) na]
  note e = release_effect [OF assms(3) na]
  have en: "autoReleaseEnabled (milestone_at s p i)" using r by simp
  then have "projects s p \<noteq> zero_project"
    by (auto simp: milestone_at_def zero_project_def zero_milestone_def)
  then have lt: "p < nextProjectId s" using assms(2) by (auto simp: slot_inv_def not_le [symmetric])
  have a: "\<forall>q. nextProjectId s' \<le> q \<longrightarrow> projects s' q = zero_project"
  proof (intro allI impI)
    fix q assume "nextProjectId s' \<le> q"
    then have "nextProjectId s \<le> q" by (simp add: e(5))
    then have "q \<noteq> p" "projects s q = zero_project" using lt assms(2) by (auto simp: slot_inv_def)
    then show "projects s' q = zero_project" using e(6) [of q] by simp
  qed
  have b: "\<forall>q j. autoReleaseEnabled (milestone_at s' q j) \<longrightarrow>
        j < milestoneCount (projects s' q) \<and>
        autoReleaseTime (milestone_at s' q j) = deadline (milestone_at s' q j) + AUTO_RELEASE_DELAY"
    using assms(2) by (auto simp: e(1) e(2) slot_inv_def)
  have c: "\<forall>q j. status (milestone_at s' q j) = Released \<longrightarrow> autoReleaseEnabled (milestone_at s' q j)"
    using assms(2) en by (auto simp: e(1) slot_inv_def)
  show ?thesis unfolding slot_inv_def using a b c by blast
qed

lemma sum_point_update:
  fixes g g' :: "nat \<Rightarrow> nat"
  assumes "i < n" "\<And>j. j \<noteq> i \<Longrightarrow> g' j = g j"
  shows "(\<Sum>j<n. g' j) + g i = (\<Sum>j<n. g j) + g' i"
proof -
  have fin: "finite {..<n}" "i \<in> {..<n}" using assms(1) by simp_all
  have "(\<Sum>j<n. g' j) = g' i + (\<Sum>j\<in>{..<n} - {i}. g' j)"
    by (rule sum.remove [OF fin])
  moreover have "(\<Sum>j<n. g j) = g i + (\<Sum>j\<in>{..<n} - {i}. g j)"
    by (rule sum.remove [OF fin])
  moreover have "(\<Sum>j\<in>{..<n} - {i}. g' j) = (\<Sum>j\<in>{..<n} - {i}. g j)"
    by (rule sum.cong) (simp_all add: assms(2))
  ultimately show ?thesis by simp
qed

lemma released_sum_room:
  assumes "i < milestoneCount (projects s p)" "status (milestone_at s p i) \<noteq> Released"
  shows "released_sum s p + fundingAmount (milestone_at s p i)
           \<le> (\<Sum>j<milestoneCount (projects s p). fundingAmount (milestone_at s p j))"
proof -
  let ?n = "milestoneCount (projects s p)"
  have fin: "finite {..<?n}" "i \<in> {..<?n}" using assms(1) by simp_all
  have 1: "released_sum s p = released_amount (milestone_at s p i) +
             (\<Sum>j\<in>{..<?n} - {i}. released_amount (milestone_at s p j))"
    unfolding released_sum_def by (rule sum.remove [OF fin])
  have 2: "(\<Sum>j<?n. fundingAmount (milestone_at s p j)) = fundingAmount (milestone_at s p i) +
             (\<Sum>j\<in>{..<?n} - {i}. fundingAmount (milestone_at s p j))"
    by (rule sum.remove [OF fin])
  have 3: "(\<Sum>j\<in>{..<?n} - {i}. released_amount (milestone_at s p j))
             \<le> (\<Sum>j\<in>{..<?n} - {i}. fundingAmount (milestone_at s p j))"
    by (rule sum_mono) (simp add: released_amount_def)
  have 4: "released_amount (milestone_at s p i) = 0"
    using assms(2) by (simp add: released_amount_def)
  show ?thesis using 1 2 3 4 by simp
qed

lemma sum_inv_release:
  assumes "panel_inv s" "slot_inv s" "sum_inv s"
    "releaseMilestoneFunds tok p i sender now s = Inr s'"
  shows "sum_inv s'"
proof -
  have na: "status (milestone_at s p i) \<noteq> Approved"
    using assms(1) by (rule panel_inv_not_approved)
  note r = releaseMilestoneFunds_result [OF assms(4) na]
  note e = release_effect [OF assms(4) na]
  have en: "autoReleaseEnabled (milestone_at s p i)" and st: "status (milestone_at s p i) = InReview"
    using r by simp_all
  have lt: "i < milestoneCount (projects s p)" using en assms(2) by (simp add: slot_inv_def)
  have fa: "\<And>q j. fundingAmount (milestone_at s' q j) = fundingAmount (milestone_at s q j)"
    by (simp add: e(1))
  show ?thesis unfolding sum_inv_def
  proof (intro allI)
    fix q
    have old: "released_sum s q = releasedFunding (projects s q) \<and>
          (\<Sum>j<milestoneCount (projects s q). fundingAmount (milestone_at s q j)) =
            totalFunding (projects s q) \<and>
          totalFunding (projects s q) \<le> MAX_UINT256"
      using assms(3) by (simp add: sum_inv_def)
    have tot: "(\<Sum>j<milestoneCount (projects s' q). fundingAmount (milestone_at s' q j)) =
            totalFunding (projects s' q)"
      using old by (simp add: fa e(2) e(3))
    have rel: "released_sum s' q = releasedFunding (projects s' q)"
    proof (cases "q = p")
      case False
      then have "released_sum s' q = released_sum s q"
        by (simp add: released_sum_def e(1) e(2))
      then show ?thesis using old False by (simp add: e(4))
    next
      case True
      have "(\<Sum>j<milestoneCount (projects s p). released_amount (milestone_at s' p j)) +
              released_amount (milestone_at s p i) =
            (\<Sum>j<milestoneCount (projects s p). released_amount (milestone_at s p j)) +
              released_amount (milestone_at s' p i)"
        by (rule sum_point_update [OF lt]) (simp add: e(1))
      moreover have "released_amount (milestone_at s p i) = 0"
        using st by (simp add: released_amount_def)
      moreover have "released_amount (milestone_at s' p i) = fundingAmount (milestone_at s p i)"
        by (simp add: e(1) released_amount_def)
      ultimately have "released_sum s' p = released_sum s p + fundingAmount (milestone_at s p i)"
        by (simp add: released_sum_def e(2))
      then show ?thesis using old True by (simp add: e(4))
    qed
    show "released_sum s' q = releasedFunding (projects s' q) \<and>
          (\<Sum>j<milestoneCount (projects s' q). fundingAmount (milestone_at s' q j)) =
            totalFunding (projects s' q) \<and>
          totalFunding (projects s' q) \<le> MAX_UINT256"
      using tot rel old by (simp add: e(3))
  qed
qed

lemma log_inv_init: "log_inv (initialize a b c)"
  by (simp add: log_inv_def initialize_def milestone_at_def zero_project_def zero_milestone_def)

lemma log_inv_roles: "log_inv (s\<lparr>roleMember := r\<rparr>) = log_inv s"
  by (simp add: log_inv_def)

lemma log_inv_create:
  assumes "slot_inv s" "log_inv s"
    "createProject ttl descr token amounts descrs dls sender now s = Inr (s', pid)"
  shows "log_inv s'"
proof -
  from assms(3) obtain ms tot where
    cm: "createMilestones now 0 (zip amounts (zip descrs dls))
        (milestones (projects s (nextProjectId s))) 0 = Inr (ms, tot)"
    and at: "\<And>p i. milestone_at s' p i = (if p = nextProjectId s then ms i else milestone_at s p i)"
    and other: "\<And>p. p \<noteq> nextProjectId s \<Longrightarrow> projects s' p = projects s p"
    and cnt: "milestoneCount (projects s' (nextProjectId s)) = length amounts"
    and tot: "totalFunding (projects s' (nextProjectId s)) = tot"
    and rel: "releasedFunding (projects s' (nextProjectId s)) = releasedFunding (projects s (nextProjectId s))"
    and nxt: "nextProjectId s' = nextProjectId s + 1"
    and len: "length descrs = length amounts" "length dls = length amounts"
    and em: "emitted s' = emitted s @ [ProjectCreated (nextProjectId s) sender tot]"
    and tr: "transfers s' = transfers s" and fee: "platformFeeRate s' = platformFeeRate s"
    by (elim createProject_milestone_at) (rule that, assumption+)
  have fresh: "projects s (nextProjectId s) = zero_project"
    using assms(1) by (simp add: slot_inv_def)
  have st: "\<And>i. status (ms i) \<noteq> Released"
  proof -
    fix i show "status (ms i) \<noteq> Released"
      using createMilestones_slots [OF cm, of i] len
      by (cases "i < length amounts") (auto simp: fresh zero_project_def zero_milestone_def)
  qed
  have old: "\<And>i. status (milestone_at s (nextProjectId s) i) \<noteq> Released"
    by (simp add: milestone_at_def fresh zero_project_def zero_milestone_def)
  have "\<And>p i. (status (milestone_at s' p i) = Released) = (status (milestone_at s p i) = Released)"
    using st old by (simp add: at)
  then show ?thesis using assms(2) by (simp add: log_inv_def em tr fee)
qed

lemma log_inv_fund:
  assumes "log_inv s" "fundProject tok p amount sender s = Inr s'"
  shows "log_inv s'"
  using assms(1) by (simp add: log_inv_def fundProject_result [OF assms(2)])

lemma log_inv_stake:
  assumes "log_inv s" "stakeAsReviewer tok sender s = Inr s'"
  shows "log_inv s'"
  using assms(1) stakeAsReviewer_result [OF assms(2)]
  by (simp add: log_inv_def milestone_at_def)

lemma log_inv_submit:
  assumes "log_inv s" "submitMilestone p i h sender now s = Inr s'"
  shows "log_inv s'"
proof -
  note r = submitMilestone_result [OF assms(2)]
  have s': "s' = (set_milestone p i
                ((milestone_at s p i)\<lparr>deliverableHash := h, status := InReview,
                    submissionTime := now, assignedReviewers := replicate MIN_REVIEWERS 0\<rparr>) s)
              \<lparr>emitted := emitted s @ [MilestoneSubmitted p i h]\<rparr>"
    using r by simp
  have pend: "status (milestone_at s p i) = Pending" using r by simp
  have eq: "\<And>q j. (status (milestone_at s' q j) = Released) = (status (milestone_at s q j) = Released)"
    using pend by (auto simp: s')
  have em: "emitted s' = emitted s @ [MilestoneSubmitted p i h]"
    and tr: "transfers s' = transfers s" and fee: "platformFeeRate s' = platformFeeRate s"
    by (simp_all add: s')
  have a: "\<forall>q j. length (filter (releases q j) (emitted s')) =
              (if status (milestone_at s' q j) = Released then 1 else 0)"
  proof (intro allI)
    fix q j
    have "length (filter (releases q j) (emitted s)) =
              (if status (milestone_at s q j) = Released then 1 else 0)"
      using assms(1) by (simp add: log_inv_def)
    then show "length (filter (releases q j) (emitted s')) =
              (if status (milestone_at s' q j) = Released then 1 else 0)"
      by (simp add: em eq)
  qed
  have b: "length (filter is_outgoing (transfers s')) =
             2 * length (filter is_release_event (emitted s'))"
    using assms(1) by (simp add: log_inv_def em tr)
  have c: "platformFeeRate s' = 200" using assms(1) by (simp add: log_inv_def fee)
  show ?thesis unfolding log_inv_def using a b c by blast
qed

lemma log_inv_release:
  assumes "panel_inv s" "log_inv s" "releaseMilestoneFunds tok p i sender now s = Inr s'"
  shows "log_inv s'"
proof -
  have na: "status (milestone_at s p i) \<noteq> Approved"
    using assms(1) by (rule panel_inv_not_approved)
  note r = releaseMilestoneFunds_result [OF assms(3) na]
  note e = release_effect [OF assms(3) na]
  have st: "status (milestone_at s p i) = InReview" using r by simp
  have em: "emitted s' = emitted s @ [MilestoneReleased p i (fundingAmount (milestone_at s p i))]"
    and tr: "filter is_outgoing (transfers s') =
       filter is_outgoing (transfers s) @
         [TransferOut (fundingToken (projects s p)) (creator (projects s p))
                     (fundingAmount (milestone_at s p i) -
                        fundingAmount (milestone_at s p i) * platformFeeRate s div 10000),
          TransferOut (fundingToken (projects s p)) (treasury s)
                     (fundingAmount (milestone_at s p i) * platformFeeRate s div 10000)]"
    using r by simp_all
  have a: "\<forall>q j. length (filter (releases q j) (emitted s')) =
              (if status (milestone_at s' q j) = Released then 1 else 0)"
  proof (intro allI)
    fix q j
    have old: "length (filter (releases q j) (emitted s)) =
              (if status (milestone_at s q j) = Released then 1 else 0)"
      using assms(2) by (simp add: log_inv_def)
    show "length (filter (releases q j) (emitted s')) =
              (if status (milestone_at s' q j) = Released then 1 else 0)"
      using old st by (cases "q = p \<and> j = i") (auto simp: em e(1))
  qed
  have b: "length (filter is_outgoing (transfers s')) =
             2 * length (filter is_release_event (emitted s'))"
    using assms(2) by (simp add: log_inv_def em tr)
  show ?thesis unfolding log_inv_def using a b assms(2) by (simp add: e(7) log_inv_def)
qed

lemma finv_init: "finv (initialize a b c)"
  by (simp add: finv_def panel_inv_init slot_inv_init sum_inv_init log_inv_init)

lemma finv_roles: "finv s \<Longrightarrow> finv (s\<lparr>roleMember := r\<rparr>)"
  by (simp add: finv_def panel_inv_roles slot_inv_roles sum_inv_roles log_inv_roles)

lemma finv_step:
  assumes "finv s" "sender \<noteq> 0" "fexec tok c sender now s = Inr s'"
  shows "finv s'"
proof -
  have pi: "panel_inv s" and si: "slot_inv s" and su: "sum_inv s" and li: "log_inv s"
    using assms(1) by (simp_all add: finv_def)
  show ?thesis
  proof (cases c)
    case (CreateProject ttl descr token amounts descrs dls)
    then obtain pid where
      cp: "createProject ttl descr token amounts descrs dls sender now s = Inr (s', pid)"
      using assms(3)
      by (cases "createProject ttl descr token amounts descrs dls sender now s") auto
    show ?thesis
      by (simp add: finv_def panel_inv_create [OF pi cp] slot_inv_create [OF si cp]
          sum_inv_create [OF si su cp] log_inv_create [OF si li cp])
  next
    case (FundProject p amount)
    then have f: "fundProject tok p amount sender s = Inr s'" using assms(3) by simp
    have e: "projects s' = projects s" "nextProjectId s' = nextProjectId s"
      by (simp_all add: fundProject_result [OF f])
    show ?thesis using pi si su log_inv_fund [OF li f]
      by (simp add: finv_def projects_eq_invs [OF e])
  next
    case (SubmitMilestone p i h)
    then have f: "submitMilestone p i h sender now s = Inr s'" using assms(3) by simp
    show ?thesis
      by (simp add: finv_def panel_inv_submit [OF pi f] slot_inv_submit [OF si assms(2) f]
          sum_inv_submit [OF su f] log_inv_submit [OF li f])
  next
    case (ReviewMilestone p i ok comments)
    then have "reviewMilestone p i ok comments sender s = Inr s'" using assms(3) by simp
    moreover have "isl (reviewMilestone p i ok comments sender s)"
      using pi assms(2) by (rule review_never_succeeds)
    ultimately show ?thesis by simp
  next
    case (ReleaseMilestoneFunds p i)
    then have f: "releaseMilestoneFunds tok p i sender now s = Inr s'" using assms(3) by simp
    show ?thesis
      by (simp add: finv_def panel_inv_release [OF pi f] slot_inv_release [OF pi si f]
          sum_inv_release [OF pi si su f] log_inv_release [OF pi li f])
  next
    case StakeAsReviewer
    then have f: "stakeAsReviewer tok sender s = Inr s'" using assms(3) by simp
    have e: "projects s' = projects s" "nextProjectId s' = nextProjectId s"
      using stakeAsReviewer_result [OF f] by simp_all
    show ?thesis using pi si su log_inv_stake [OF li f]
      by (simp add: finv_def projects_eq_invs [OF e])
  qed
qed

lemma freach_finv: "freach s \<Longrightarrow> finv s"
proof (induction rule: freach.induct)
  case (fr_init admin stakeTok treas)
  show ?case by (rule finv_init)
next
  case (fr_call s sender tok c now s')
  then show ?case by (blast intro: finv_step)
next
  case (fr_roles s r)
  from fr_roles.IH show ?case by (rule finv_roles)
qed

lemma released_persists:
  assumes "finv s" "sender \<noteq> 0" "fexec tok c sender now s = Inr s'"
    and rel: "status (milestone_at s p i) = Released"
  shows "status (milestone_at s' p i) = Released"
proof -
  have pi: "panel_inv s" and si: "slot_inv s"
    using assms(1) by (simp_all add: finv_def)
  have "autoReleaseEnabled (milestone_at s p i)" using si rel by (simp add: slot_inv_def)
  then have "projects s p \<noteq> zero_project"
    by (auto simp: milestone_at_def zero_project_def zero_milestone_def)
  then have lt: "p < nextProjectId s" using si by (auto simp: slot_inv_def not_le [symmetric])
  show ?thesis
  proof (cases c)
    case (CreateProject ttl descr token amounts descrs dls)
    then obtain pid where
      cp: "createProject ttl descr token amounts descrs dls sender now s = Inr (s', pid)"
      using assms(3)
      by (cases "createProject ttl descr token amounts descrs dls sender now s") auto
    from createProject_result [OF cp] obtain ms tot where
      s': "s' = s\<lparr>nextProjectId := nextProjectId s + 1,
            projects := (projects s)(nextProjectId s :=
               (projects s (nextProjectId s))\<lparr>creator := sender, title := ttl,
                  projectDescription := descr, fundingToken := token,
                  milestoneCount := length amounts, projectActive := True, createdAt := now,
                  milestones := ms, totalFunding := tot\<rparr>),
            emitted := emitted s @ [ProjectCreated (nextProjectId s) sender tot]\<rparr>"
      by blast
    show ?thesis using lt rel by (simp add: s' milestone_at_def)
  next
    case (FundProject q amount)
    then have f: "fundProject tok q amount sender s = Inr s'" using assms(3) by simp
    show ?thesis using rel by (simp add: fundProject_result [OF f])
  next
    case (SubmitMilestone q j h)
    then have f: "submitMilestone q j h sender now s = Inr s'" using assms(3) by simp
    note r = submitMilestone_result [OF f]
    have "\<not> (q = p \<and> j = i)" using r rel by auto
    then show ?thesis using r rel by auto
  next
    case (ReviewMilestone q j ok comments)
    then have "reviewMilestone q j ok comments sender s = Inr s'" using assms(3) by simp
    moreover have "isl (reviewMilestone q j ok comments sender s)"
      using pi assms(2) by (rule review_never_succeeds)
    ultimately show ?thesis by simp
  next
    case (ReleaseMilestoneFunds q j)
    then have f: "releaseMilestoneFunds tok q j sender now s = Inr s'" using assms(3) by simp
    have na: "status (milestone_at s q j) \<noteq> Approved" using pi by (rule panel_inv_not_approved)
    show ?thesis using rel by (simp add: release_effect(1) [OF f na])
  next
    case StakeAsReviewer
    then have f: "stakeAsReviewer tok sender s = Inr s'" using assms(3) by simp
    show ?thesis using rel stakeAsReviewer_result [OF f] by (simp add: milestone_at_def)
  qed
qed

lemma released_set_sum:
  assumes "slot_inv s"
  shows "{j. status (milestone_at s p j) = Released} \<subseteq> {..<milestoneCount (projects s p)} \<and>
         (\<Sum>j | status (milestone_at s p j) = Released. fundingAmount (milestone_at s p j))
           = released_sum s p"
proof -
  let ?n = "milestoneCount (projects s p)"
  have sub: "{j. status (milestone_at s p j) = Released} \<subseteq> {..<?n}"
    using assms by (auto simp: slot_inv_def)
  then have eq: "{j. status (milestone_at s p j) = Released} =
     {j \<in> {..<?n}. status (milestone_at s p j) = Released}" by auto
  have "(\<Sum>j \<in> {j \<in> {..<?n}. status (milestone_at s p j) = Released}.
            fundingAmount (milestone_at s p j)) =
        (\<Sum>j<?n. if status (milestone_at s p j) = Released
                  then fundingAmount (milestone_at s p j) else 0)"
    by (rule sum.inter_filter) simp
  also have "\<dots> = released_sum s p"
    by (simp add: released_sum_def released_amount_def)
  finally show ?thesis using sub eq by simp
qed

text \<open>
  Claim C3. In every reachable state: on a Released milestone \<open>releaseMilestoneFunds\<close>
  reverts with "Cannot release funds" (no state, so no transfer), and the milestone
  stays Released after every later successful call of any operation; a milestone has
  exactly one \<open>MilestoneReleased\<close> event when it is Released and none otherwise, and
  the contract has made two outgoing transfers (creator and treasury) per such event;
  the Released milestones of a project lie below \<open>milestoneCount\<close>, and
  \<open>releasedFunding\<close> is the sum of their funding amounts.
\<close>

theorem release_exactly_once:
  assumes "freach s"
  shows "(status (milestone_at s p i) = Released \<longrightarrow>
            releaseMilestoneFunds tok p i sender now s = Inl (Require ''Cannot release funds'') \<and>
            (\<forall>tok' c a t s'. a \<noteq> 0 \<and> fexec tok' c a t s = Inr s' \<longrightarrow>
               status (milestone_at s' p i) = Released)) \<and>
         length (filter (releases p i) (emitted s)) =
            (if status (milestone_at s p i) = Released then 1 else 0) \<and>
         length (filter is_outgoing (transfers s)) =
            2 * length (filter is_release_event (emitted s)) \<and>
         {j. status (milestone_at s p j) = Released} \<subseteq> {..<milestoneCount (projects s p)} \<and>
         releasedFunding (projects s p) =
           (\<Sum>j | status (milestone_at s p j) = Released. fundingAmount (milestone_at s p j))"
proof -
  have inv: "finv s" using assms by (rule freach_finv)
  then have si: "slot_inv s" and su: "sum_inv s" and li: "log_inv s"
    by (simp_all add: finv_def)
  have a: "status (milestone_at s p i) = Released \<longrightarrow>
            releaseMilestoneFunds tok p i sender now s = Inl (Require ''Cannot release funds'')"
    by (simp add: releaseMilestoneFunds_def Let_def)
  have b: "status (milestone_at s p i) = Released \<longrightarrow>
            (\<forall>tok' c a t s'. a \<noteq> 0 \<and> fexec tok' c a t s = Inr s' \<longrightarrow>
               status (milestone_at s' p i) = Released)"
    using released_persists [OF inv] by blast
  have c: "length (filter (releases p i) (emitted s)) =
            (if status (milestone_at s p i) = Released then 1 else 0)"
    using li by (simp add: log_inv_def)
  have d: "length (filter is_outgoing (transfers s)) =
            2 * length (filter is_release_event (emitted s))"
    using li by (simp add: log_inv_def)
  have e: "released_sum s p = releasedFunding (projects s p)"
    using su by (simp add: sum_inv_def)
  show ?thesis using a b c d e released_set_sum [OF si, of p] by simp
qed

text \<open>
  Claim C6. In every reachable state and for every caller other than the zero address:
  \<open>submitMilestone\<close> leaves the panel \<open>[0, 0]\<close> (\<open>MIN_REVIEWERS\<close> zero addresses);
  every stored panel holds zero addresses only; \<open>reviewMilestone\<close> fails, and when the
  checks before the panel search pass it fails with "Not assigned reviewer";
  \<open>approvalCount\<close> is 0; no stored status is Approved; and a successful
  \<open>releaseMilestoneFunds\<close> has gone through the auto-release branch (the milestone was
  InReview with auto-release enabled and \<open>now\<close> past \<open>autoReleaseTime\<close>).
\<close>

theorem reviewer_quorum_unreachable:
  assumes "freach s" "sender \<noteq> 0"
  shows "(\<forall>s'. submitMilestone p i h a now s = Inr s' \<longrightarrow>
            assignedReviewers (milestone_at s' p i) = replicate MIN_REVIEWERS 0 \<and>
            assignedReviewers (milestone_at s' p i) = [0, 0]) \<and>
         set (assignedReviewers (milestone_at s p i)) \<subseteq> {0} \<and>
         isl (reviewMilestone p i ok comments sender s) \<and>
         (roleMember s REVIEWER_ROLE sender \<and> active (reviewerStakes s sender) \<and>
          status (milestone_at s p i) = InReview \<and> \<not> reviewerVotes s p i sender \<longrightarrow>
            reviewMilestone p i ok comments sender s = Inl (Require ''Not assigned reviewer'')) \<and>
         approvalCount (milestone_at s p i) = 0 \<and>
         status (milestone_at s p i) \<noteq> Approved \<and>
         (\<forall>tok s'. releaseMilestoneFunds tok p i sender now s = Inr s' \<longrightarrow>
            status (milestone_at s p i) = InReview \<and> autoReleaseEnabled (milestone_at s p i) \<and>
            autoReleaseTime (milestone_at s p i) < now)"
proof -
  have inv: "finv s" using assms(1) by (rule freach_finv)
  then have pi: "panel_inv s" by (simp add: finv_def)
  have na: "status (milestone_at s p i) \<noteq> Approved" using pi by (rule panel_inv_not_approved)
  have a: "\<forall>s'. submitMilestone p i h a now s = Inr s' \<longrightarrow>
            assignedReviewers (milestone_at s' p i) = replicate MIN_REVIEWERS 0 \<and>
            assignedReviewers (milestone_at s' p i) = [0, 0]"
  proof (intro allI impI)
    fix s' assume f: "submitMilestone p i h a now s = Inr s'"
    show "assignedReviewers (milestone_at s' p i) = replicate MIN_REVIEWERS 0 \<and>
            assignedReviewers (milestone_at s' p i) = [0, 0]"
      using submitMilestone_result [OF f] by (simp add: MIN_REVIEWERS_def numeral_2_eq_2)
  qed
  have b: "set (assignedReviewers (milestone_at s p i)) \<subseteq> {0}"
    and c: "approvalCount (milestone_at s p i) = 0"
    using pi unfolding panel_inv_def by blast+
  have d: "\<not> isAssigned (assignedReviewers (milestone_at s p i)) sender"
    using b assms(2) by (auto simp: isAssigned_set)
  have e: "isl (reviewMilestone p i ok comments sender s)"
    using pi assms(2) by (rule review_never_succeeds)
  have f: "roleMember s REVIEWER_ROLE sender \<and> active (reviewerStakes s sender) \<and>
          status (milestone_at s p i) = InReview \<and> \<not> reviewerVotes s p i sender \<longrightarrow>
            reviewMilestone p i ok comments sender s = Inl (Require ''Not assigned reviewer'')"
    using d by (simp add: reviewMilestone_def Let_def)
  have g: "\<forall>tok s'. releaseMilestoneFunds tok p i sender now s = Inr s' \<longrightarrow>
            status (milestone_at s p i) = InReview \<and> autoReleaseEnabled (milestone_at s p i) \<and>
            autoReleaseTime (milestone_at s p i) < now"
    using releaseMilestoneFunds_result [OF _ na] by blast
  show ?thesis using a b c e f g na by blast
qed

text \<open>
  Claim C9, as amended. For a milestone of a reachable state that is InReview with
  auto-release enabled and has the deadline \<open>D\<close>: at \<open>D + AUTO_RELEASE_DELAY + 1\<close>
  \<open>releaseMilestoneFunds\<close> succeeds and leaves the milestone Released, provided the
  product \<open>fundingAmount * platformFeeRate\<close> fits \<^verbatim>\<open>uint256\<close> and the token accepts the
  two transfers; at \<open>D + AUTO_RELEASE_DELAY - 1\<close> it reverts with
  "Cannot release funds".
\<close>

theorem auto_release_window:
  assumes "freach s" "status (milestone_at s p i) = InReview"
    "autoReleaseEnabled (milestone_at s p i)"
  shows "(fundingAmount (milestone_at s p i) * platformFeeRate s \<le> MAX_UINT256 \<and>
          tok (TransferOut (fundingToken (projects s p)) (creator (projects s p))
                 (fundingAmount (milestone_at s p i) -
                    fundingAmount (milestone_at s p i) * platformFeeRate s div 10000)) \<and>
          tok (TransferOut (fundingToken (projects s p)) (treasury s)
                 (fundingAmount (milestone_at s p i) * platformFeeRate s div 10000))
          \<longrightarrow> (\<exists>s'. releaseMilestoneFunds tok p i sender
                        (deadline (milestone_at s p i) + AUTO_RELEASE_DELAY + 1) s = Inr s' \<and>
                     status (milestone_at s' p i) = Released)) \<and>
         releaseMilestoneFunds tok p i sender
            (deadline (milestone_at s p i) + AUTO_RELEASE_DELAY - 1) s
           = Inl (Require ''Cannot release funds'')"
proof -
  let ?m = "milestone_at s p i"
  have inv: "finv s" using assms(1) by (rule freach_finv)
  then have si: "slot_inv s" and su: "sum_inv s" and li: "log_inv s"
    by (simp_all add: finv_def)
  have art: "autoReleaseTime ?m = deadline ?m + AUTO_RELEASE_DELAY"
    and lt: "i < milestoneCount (projects s p)"
    using si assms(3) by (simp_all add: slot_inv_def)
  have fee: "platformFeeRate s = 200" using li by (simp add: log_inv_def)
  have nr: "status ?m \<noteq> Released" using assms(2) by simp
  have room: "releasedFunding (projects s p) + fundingAmount ?m \<le> MAX_UINT256"
  proof -
    have "released_sum s p + fundingAmount ?m \<le> totalFunding (projects s p)"
      using released_sum_room [OF lt nr] su by (simp add: sum_inv_def)
    moreover have "totalFunding (projects s p) \<le> MAX_UINT256" using su by (simp add: sum_inv_def)
    moreover have "released_sum s p = releasedFunding (projects s p)"
      using su by (simp add: sum_inv_def)
    ultimately show ?thesis by simp
  qed
  have feele: "fundingAmount ?m * 200 div 10000 \<le> fundingAmount ?m" by simp
  have late: "releaseMilestoneFunds tok p i sender (deadline ?m + AUTO_RELEASE_DELAY - 1) s
           = Inl (Require ''Cannot release funds'')"
  proof -
    have "\<not> autoReleaseTime ?m < deadline ?m + AUTO_RELEASE_DELAY - 1"
      using art by simp
    then show ?thesis
      using assms(2) by (simp add: releaseMilestoneFunds_def Let_def)
  qed
  have ok: "fundingAmount ?m * platformFeeRate s \<le> MAX_UINT256 \<and>
          tok (TransferOut (fundingToken (projects s p)) (creator (projects s p))
                 (fundingAmount ?m - fundingAmount ?m * platformFeeRate s div 10000)) \<and>
          tok (TransferOut (fundingToken (projects s p)) (treasury s)
                 (fundingAmount ?m * platformFeeRate s div 10000))
          \<longrightarrow> (\<exists>s'. releaseMilestoneFunds tok p i sender
                        (deadline ?m + AUTO_RELEASE_DELAY + 1) s = Inr s' \<and>
                     status (milestone_at s' p i) = Released)"
  proof -
    have "autoReleaseTime ?m < deadline ?m + AUTO_RELEASE_DELAY + 1"
      using art by simp
    then show ?thesis
      using assms(2,3) room feele
      by (auto simp: releaseMilestoneFunds_def rewardReviewers_def Let_def fee
          milestone_at_def set_milestone_def not_less [symmetric])
  qed
  show ?thesis using ok late by blast
qed

text \<open>
  Claim C2, as amended. \<open>createProject\<close> takes absolute milestone amounts and has no
  check of their sum. When it succeeds, there were between 2 and 8 milestones, the
  three arrays had the same length and every deadline lay after \<open>now\<close>; the new
  project has the id \<open>nextProjectId\<close>, its milestones store the amounts given, and
  \<open>totalFunding\<close> is their sum.
\<close>

theorem createProject_stores_amounts:
  assumes "createProject ttl descr token amounts descrs dls sender now s = Inr (s', pid)"
  shows "2 \<le> length amounts \<and> length amounts \<le> 8 \<and>
         length descrs = length amounts \<and> length dls = length amounts \<and>
         (\<forall>d \<in> set dls. now < d) \<and>
         pid = nextProjectId s \<and>
         milestoneCount (projects s' pid) = length amounts \<and>
         (\<forall>k < length amounts. fundingAmount (milestone_at s' pid k) = amounts ! k) \<and>
         totalFunding (projects s' pid) = sum_list amounts"
proof -
  from assms obtain ms tot where
    cm: "createMilestones now 0 (zip amounts (zip descrs dls))
        (milestones (projects s (nextProjectId s))) 0 = Inr (ms, tot)"
    and at: "\<And>p i. milestone_at s' p i = (if p = nextProjectId s then ms i else milestone_at s p i)"
    and other: "\<And>p. p \<noteq> nextProjectId s \<Longrightarrow> projects s' p = projects s p"
    and cnt: "milestoneCount (projects s' (nextProjectId s)) = length amounts"
    and tot: "totalFunding (projects s' (nextProjectId s)) = tot"
    and rel: "releasedFunding (projects s' (nextProjectId s)) = releasedFunding (projects s (nextProjectId s))"
    and nxt: "nextProjectId s' = nextProjectId s + 1"
    and len: "length descrs = length amounts" "length dls = length amounts"
    by (elim createProject_milestone_at) (rule that, assumption+)
  have r: "pid = nextProjectId s" "2 \<le> length amounts" "length amounts \<le> 8"
    using createProject_result [OF assms] by auto
  have fsts: "map fst (zip amounts (zip descrs dls)) = amounts"
    using len by (simp add: map_fst_zip)
  have snds: "map (\<lambda>x. snd (snd x)) (zip amounts (zip descrs dls)) = dls"
    using len by (simp add: map_snd_zip flip: map_map comp_def [of snd snd])
  have dl: "\<forall>d \<in> set dls. now < d"
  proof
    fix d assume "d \<in> set dls"
    then have "d \<in> (\<lambda>x. snd (snd x)) ` set (zip amounts (zip descrs dls))"
      using snds by (metis set_map)
    then show "now < d" using createMilestones_deadlines [OF cm] by auto
  qed
  have fa: "\<forall>k < length amounts. fundingAmount (milestone_at s' pid k) = amounts ! k"
    using createMilestones_slots [OF cm] len by (simp add: at r(1))
  have "tot = sum_list amounts"
    using createMilestones_total [OF cm] fsts by simp
  then show ?thesis using r len dl fa cnt tot by simp
qed

lemmas fdemo_defs = accept_all_def demo_created_def demo_submitted_def demo_released_def
  demo_big_def demo_big_submitted_def

lemmas fop_defs = initialize_def zero_project_def zero_milestone_def zero_stake_def
  createProject_def submitMilestone_def assignReviewers_def reviewMilestone_def
  requiredApprovals_def checkMilestoneApproval_def releaseMilestoneFunds_def rewardReviewers_def
  milestone_at_def set_milestone_def MAX_UINT256_def AUTO_RELEASE_DELAY_def
  MIN_REVIEWERS_def APPROVAL_THRESHOLD_def REVIEWER_STAKE_REQUIRED_def Let_def

lemma replicate_two: "replicate 2 x = [x, x]"
  by (simp add: numeral_2_eq_2)

text \<open>
  C2, counterexample: the amounts 50, 30, 10 (sum 90) are accepted; the project is
  created with \<open>totalFunding = 90\<close>.
\<close>

theorem createProject_accepts_sum_90:
  "createProject ''Library'' ''Docs'' 9 [50, 30, 10] [''a'', ''b'', ''c''] [100, 200, 300]
      5 10 (initialize 1 2 3) = Inr (demo_created, 1) \<and>
   totalFunding (projects demo_created 1) = 90 \<and>
   fundingAmount (milestone_at demo_created 1 0) = 50 \<and>
   fundingAmount (milestone_at demo_created 1 1) = 30 \<and>
   fundingAmount (milestone_at demo_created 1 2) = 10"
  by (simp add: fdemo_defs fop_defs)

text \<open>
  C2, witness: the project with the amounts 50, 30, 10.
\<close>

theorem createProject_stores_amounts_witness:
  "createProject ''Library'' ''Docs'' 9 [50, 30, 10] [''a'', ''b'', ''c''] [100, 200, 300]
      5 10 (initialize 1 2 3) = Inr (demo_created, 1) \<and>
   milestoneCount (projects demo_created 1) = 3 \<and>
   fundingAmount (milestone_at demo_created 1 2) = [50, 30, 10] ! 2 \<and>
   totalFunding (projects demo_created 1) = sum_list [50, 30, 10]"
proof -
  have h: "createProject ''Library'' ''Docs'' 9 [50, 30, 10] [''a'', ''b'', ''c''] [100, 200, 300]
      5 10 (initialize 1 2 3) = Inr (demo_created, 1)"
    by (simp add: fdemo_defs fop_defs)
  show ?thesis using h createProject_stores_amounts [OF h] by simp
qed

lemma demo_created_reach: "freach demo_created"
proof -
  have 0: "freach (initialize 1 2 3)" by (rule fr_init)
  have "fexec accept_all (CreateProject ''Library'' ''Docs'' 9 [50, 30, 10] [''a'', ''b'', ''c'']
          [100, 200, 300]) 5 10 (initialize 1 2 3) = Inr demo_created"
    by (simp add: fdemo_defs fop_defs)
  from fr_call [OF 0 _ this] show ?thesis by simp
qed

lemma demo_submitted_reach: "freach demo_submitted"
proof -
  have "fexec accept_all (SubmitMilestone 1 0 ''Qm'') 5 20 demo_created = Inr demo_submitted"
    by (simp add: fdemo_defs fop_defs)
  from fr_call [OF demo_created_reach _ this] show ?thesis by simp
qed

lemma demo_released_reach: "freach demo_released"
proof -
  have "fexec accept_all (ReleaseMilestoneFunds 1 0) 5 (100 + AUTO_RELEASE_DELAY + 1) demo_submitted
          = Inr demo_released"
    by (simp add: fdemo_defs fop_defs)
  from fr_call [OF demo_submitted_reach _ this] show ?thesis by simp
qed

text \<open>
  C3, witness: milestone 0 of project 1 after its auto-release.
\<close>

theorem release_exactly_once_witness:
  "freach demo_released \<and> status (milestone_at demo_released 1 0) = Released \<and>
   releaseMilestoneFunds accept_all 1 0 5 700000 demo_released = Inl (Require ''Cannot release funds'') \<and>
   length (filter (releases 1 0) (emitted demo_released)) = 1 \<and>
   length (filter is_outgoing (transfers demo_released)) = 2 \<and>
   releasedFunding (projects demo_released 1) =
     (\<Sum>j | status (milestone_at demo_released 1 j) = Released.
        fundingAmount (milestone_at demo_released 1 j)) \<and>
   releasedFunding (projects demo_released 1) = 50"
proof -
  have r: "freach demo_released" by (rule demo_released_reach)
  have st: "status (milestone_at demo_released 1 0) = Released"
    by (simp add: fdemo_defs fop_defs)
  have ev: "length (filter is_release_event (emitted demo_released)) = 1"
    by (simp add: fdemo_defs fop_defs)
  have rf: "releasedFunding (projects demo_released 1) = 50"
    by (simp add: fdemo_defs fop_defs)
  show ?thesis
    using release_exactly_once [OF r, of 1 0 accept_all 5 700000] r st ev rf by simp
qed

text \<open>
  C6, witness: project 1 with milestone 0 submitted, and reviewer 11.
\<close>

theorem reviewer_quorum_unreachable_witness:
  "freach demo_submitted \<and> (11::nat) \<noteq> 0 \<and>
   assignedReviewers (milestone_at demo_submitted 1 0) = [0, 0] \<and>
   isl (reviewMilestone 1 0 True [] 11 demo_submitted) \<and>
   approvalCount (milestone_at demo_submitted 1 0) = 0 \<and>
   status (milestone_at demo_submitted 1 0) = InReview \<and>
   submitMilestone 1 1 ''Qn'' 5 30 demo_submitted = Inr demo_submitted2 \<and>
   assignedReviewers (milestone_at demo_submitted2 1 1) = [0, 0]"
proof -
  have r: "freach demo_submitted" by (rule demo_submitted_reach)
  have n: "(11::nat) \<noteq> 0" by simp
  have a: "assignedReviewers (milestone_at demo_submitted 1 0) = [0, 0]"
    "status (milestone_at demo_submitted 1 0) = InReview"
    by (simp_all add: fdemo_defs fop_defs replicate_two)
  have e: "submitMilestone 1 1 ''Qn'' 5 30 demo_submitted = Inr demo_submitted2"
    by (simp add: demo_submitted2_def fdemo_defs fop_defs)
  note T1 = reviewer_quorum_unreachable [OF r n, of 1 1 "''Qn''" 5 30 True "[]"]
  note T0 = reviewer_quorum_unreachable [OF r n, of 1 0 "''Qn''" 5 30 True "[]"]
  from T1 e have x: "assignedReviewers (milestone_at demo_submitted2 1 1) = [0, 0]"
    by blast
  from T0 have y: "isl (reviewMilestone 1 0 True [] 11 demo_submitted)"
    "approvalCount (milestone_at demo_submitted 1 0) = 0"
    by blast+
  show ?thesis using r n a e x y by blast
qed

text \<open>
  C9, witness: milestone 0 (deadline 100) of project 1, submitted and in review.
\<close>

theorem auto_release_window_witness:
  "freach demo_submitted \<and> status (milestone_at demo_submitted 1 0) = InReview \<and>
   autoReleaseEnabled (milestone_at demo_submitted 1 0) \<and>
   deadline (milestone_at demo_submitted 1 0) = 100 \<and>
   (\<exists>s'. releaseMilestoneFunds accept_all 1 0 5 (100 + AUTO_RELEASE_DELAY + 1) demo_submitted = Inr s' \<and>
         status (milestone_at s' 1 0) = Released) \<and>
   releaseMilestoneFunds accept_all 1 0 5 (100 + AUTO_RELEASE_DELAY - 1) demo_submitted
     = Inl (Require ''Cannot release funds'')"
proof -
  have r: "freach demo_submitted" by (rule demo_submitted_reach)
  have a: "status (milestone_at demo_submitted 1 0) = InReview"
    and b: "autoReleaseEnabled (milestone_at demo_submitted 1 0)"
    and c: "deadline (milestone_at demo_submitted 1 0) = 100"
    and d: "fundingAmount (milestone_at demo_submitted 1 0) * platformFeeRate demo_submitted
              \<le> MAX_UINT256"
    by (simp_all add: fdemo_defs fop_defs)
  show ?thesis
    using auto_release_window [OF r a b, of accept_all 5] r a b c d
    by (simp add: accept_all_def)
qed

text \<open>
  C9, counterexample to "succeeds": a project with the milestone amounts \<open>2^255\<close> and 1 is
  created and its first milestone submitted. At \<open>D + AUTO_RELEASE_DELAY + 1\<close>, with
  a token that accepts every transfer, the release reverts with \<^verbatim>\<open>Panic(0x11)\<close>: the
  fee product \<^verbatim>\<open>releaseAmount * platformFeeRate\<close> does not fit \<^verbatim>\<open>uint256\<close>. And for
  the project with the amounts 50, 30, 10 the release at that time reverts when the
  token refuses the transfer, as a token does for an escrow that was never funded.
\<close>

theorem auto_release_fee_overflow:
  "createProject ''Library'' ''Docs'' 9 [2 ^ 255, 1] [''a'', ''b''] [100, 200] 5 10
      (initialize 1 2 3) = Inr (demo_big, 1) \<and>
   submitMilestone 1 0 ''Qm'' 5 20 demo_big = Inr demo_big_submitted \<and>
   status (milestone_at demo_big_submitted 1 0) = InReview \<and>
   autoReleaseEnabled (milestone_at demo_big_submitted 1 0) \<and>
   deadline (milestone_at demo_big_submitted 1 0) = 100 \<and>
   releaseMilestoneFunds accept_all 1 0 5 (100 + AUTO_RELEASE_DELAY + 1) demo_big_submitted
     = Inl Panic_0x11 \<and>
   status (milestone_at demo_submitted 1 0) = InReview \<and>
   autoReleaseEnabled (milestone_at demo_submitted 1 0) \<and>
   deadline (milestone_at demo_submitted 1 0) = 100 \<and>
   releaseMilestoneFunds reject_all 1 0 5 (100 + AUTO_RELEASE_DELAY + 1) demo_submitted
     = Inl TransferFailed"
  by (simp add: fdemo_defs fop_defs reject_all_def)

text \<open>
  What \<open>checkMilestoneApproval\<close> decides, for every panel: the threshold is the
  rounded-down quotient.
\<close>

lemma checkMilestoneApproval_threshold:
  assumes "checkMilestoneApproval p i s = Inr s'"
  shows "status (milestone_at s' p i) = Approved \<longleftrightarrow>
           status (milestone_at s p i) = Approved \<or>
           length (assignedReviewers (milestone_at s p i)) * 66 div 100
             \<le> approvalCount (milestone_at s p i)"
  using assms
  by (auto simp: checkMilestoneApproval_def requiredApprovals_def APPROVAL_THRESHOLD_def Let_def
      split: if_splits sum.splits)







end
